theory Spec2Isabelle
  imports Complex_Main "HOL-Library.Sublist" "HOL-Library.Extended_Nat"
begin

section \<open>Data model (chunkers/types.ts)\<close>

text \<open>
  The retrieval pipeline of lmfetch, embedded function by function.  Strings are lists of
  8-bit characters (one per UTF-16 code unit below 256); JavaScript numbers that hold
  counts and line numbers are natural numbers; JavaScript numbers that hold scores are
  real numbers, with the arithmetic of the source read exactly (no rounding).  The numbers
  of \<open>parseBudget\<close> are IEEE 754 doubles, with their rounding.
\<close>

datatype ChunkType =
  ct_function | ct_class | ct_method | ct_interface | ct_type
  | ct_enum | ct_module | ct_section | ct_constant | ct_variable

record chunk =
  chunk_id :: string
  filePath :: string
  relativePath :: string
  content :: string
  startLine :: nat
  endLine :: nat
  chunk_type :: ChunkType
  name :: "string option"
  language :: string
  tokens :: nat

record scored_chunk = chunk +
  score :: real

section \<open>Characters and strings\<close>


definition isUpperCase :: "char \<Rightarrow> bool" where
  "isUpperCase c \<longleftrightarrow> (let n = (of_char c :: nat) in
      (65 \<le> n \<and> n \<le> 90) \<or> (192 \<le> n \<and> n \<le> 222 \<and> n \<noteq> 215))"

fun setBit5 :: "char \<Rightarrow> char" where
  "setBit5 (Char b0 b1 b2 b3 b4 b5 b6 b7) = Char b0 b1 b2 b3 b4 True b6 b7"

definition toLowerChar :: "char \<Rightarrow> char" where
  "toLowerChar c = (if isUpperCase c then setBit5 c else c)"

definition toLowerCase :: "string \<Rightarrow> string" where
  "toLowerCase s = map toLowerChar s"




section \<open>tokens.ts\<close>

datatype error = InvalidBudgetFormat string | VectorLengthMismatch


subsection \<open>The numbers of parseBudget\<close>

















section \<open>rankers/keyword.ts: the stemmer\<close>

definition STEM_RULES :: "(string \<times> string) list" where
  "STEM_RULES =
     [(''tion'', ''t''), (''sion'', ''s''), (''ies'', ''y''), (''ied'', ''y''),
      (''ation'', ''''), (''ement'', ''''), (''ment'', ''''), (''ing'', ''''),
      (''ed'', ''''), (''es'', ''''), (''er'', ''''), (''ly'', ''''),
      (''e'', ''''), (''s'', '''')]"

text \<open>\<open>/suf$/.test(word)\<close>\<close>

definition endsWith :: "string \<Rightarrow> string \<Rightarrow> bool" where
  "endsWith suf word \<longleftrightarrow> length suf \<le> length word \<and> drop (length word - length suf) word = suf"

text \<open>\<open>word.replace(/suf$/, replacement)\<close> for a word that ends with \<open>suf\<close>\<close>

definition replaceSuffix :: "string \<Rightarrow> string \<Rightarrow> string \<Rightarrow> string" where
  "replaceSuffix suf replacement word = take (length word - length suf) word @ replacement"

fun stemLoop :: "(string \<times> string) list \<Rightarrow> string \<Rightarrow> string" where
  "stemLoop [] word = word"
| "stemLoop ((suf, replacement) # rules) word =
     (if endsWith suf word then
        (let stemmed = replaceSuffix suf replacement word in
         if length stemmed \<ge> 3 then stemmed else stemLoop rules word)
      else stemLoop rules word)"

definition stem :: "string \<Rightarrow> string" where
  "stem word = (if length word < 4 then word else stemLoop STEM_RULES word)"

text \<open>The stemmer as the specification words it: the first rule whose suffix matches is
  the rule; its rewrite is refused when the result is shorter than three characters.\<close>

definition stem_first_match :: "string \<Rightarrow> string" where
  "stem_first_match word =
     (if length word < 4 then word
      else case find (\<lambda>(suf, replacement). endsWith suf word) STEM_RULES of
             None \<Rightarrow> word
           | Some (suf, replacement) \<Rightarrow>
               (let stemmed = replaceSuffix suf replacement word in
                if length stemmed \<ge> 3 then stemmed else word))"



text \<open>Decimal text of a natural number, as string concatenation with a number produces it.\<close>

definition digitChar :: "nat \<Rightarrow> char" where
  "digitChar d = ''0123456789'' ! d"

function showNat :: "nat \<Rightarrow> string" where
  "showNat n = (if n < 10 then [digitChar n] else showNat (n div 10) @ [digitChar (n mod 10)])"
  by pat_completeness auto
termination
  by (relation "measure id") auto

declare showNat.simps [simp del]

section \<open>chunking-parallel.ts: TokenCache\<close>

text \<open>
  The tokenizer \<open>countTokens\<close> (cl100k\_base, from the library js-tiktoken) is a parameter
  \<open>ct\<close> of the model.  The private map of the class is the state.
\<close>

type_synonym token_cache = "string \<rightharpoonup> nat"

definition hash :: "string \<Rightarrow> string" where
  "hash text =
     (if length text < 1000 then take 100 text @ showNat (length text)
      else take 100 text @ drop (length text - 100) text @ showNat (length text))"

definition tokenCache_count :: "(string \<Rightarrow> nat) \<Rightarrow> token_cache \<Rightarrow> string \<Rightarrow> nat \<times> token_cache" where
  "tokenCache_count ct cache text =
     (let h = hash text in
      case cache h of
        Some n \<Rightarrow> (n, cache)
      | None \<Rightarrow> (let tokens = ct text in (tokens, cache(h \<mapsto> tokens))))"

definition tokenCache_clear :: "token_cache \<Rightarrow> token_cache" where
  "tokenCache_clear cache = Map.empty"

text \<open>A run of calls of \<open>count\<close>, one after the other on the same cache.\<close>

fun tokenCache_countAll :: "(string \<Rightarrow> nat) \<Rightarrow> token_cache \<Rightarrow> string list \<Rightarrow> nat list \<times> token_cache" where
  "tokenCache_countAll ct cache [] = ([], cache)"
| "tokenCache_countAll ct cache (t # ts) =
     (let (n, cache') = tokenCache_count ct cache t;
          (ns, cache'') = tokenCache_countAll ct cache' ts
      in (n # ns, cache''))"

text \<open>A stand-in tokenizer for concrete runs: one token per blank-separated word.\<close>

fun countWords :: "bool \<Rightarrow> string \<Rightarrow> nat" where
  "countWords inWord [] = 0"
| "countWords inWord (c # cs) =
     (if c = CHR '' '' then countWords False cs
      else (if inWord then 0 else 1) + countWords True cs)"

definition wordCount :: "string \<Rightarrow> nat" where
  "wordCount s = countWords False s"

definition collide_a :: string where
  "collide_a = replicate 100 CHR ''a'' @ ''b c''"

definition collide_b :: string where
  "collide_b = replicate 100 CHR ''a'' @ ''bcd''"

text \<open>A cache that holds, for each text of a set, either nothing or that text's own count.\<close>

definition exact_on :: "(string \<Rightarrow> nat) \<Rightarrow> token_cache \<Rightarrow> string set \<Rightarrow> bool" where
  "exact_on ct cache S \<longleftrightarrow> (\<forall>t\<in>S. cache (hash t) = None \<or> cache (hash t) = Some (ct t))"


section \<open>chunkers/code.ts: CodeChunker\<close>

text \<open>
  \<open>hashContent\<close> (SHA-256 as a hexadecimal string, from the runtime) and \<open>countTokens\<close>
  are parameters \<open>h\<close> and \<open>ct\<close>.  A pattern of the table \<open>PATTERNS\<close> is a line matcher,
  which returns the text of the name group when the line matches, together with the kind
  of construct; the table itself, \<open>PATTERNS[lang] || []\<close>, is the parameter \<open>pats\<close>,
  so that what is proved of \<open>chunk\<close> holds for every table.
\<close>

definition MAX_CHUNK_LINES :: nat where "MAX_CHUNK_LINES = 200"
definition MIN_CHUNK_LINES :: nat where "MIN_CHUNK_LINES = 10"

record pattern =
  regex :: "string \<Rightarrow> string option"
  ptype :: ChunkType

record boundary =
  line :: nat
  btype :: ChunkType
  bname :: "string option"

text \<open>\<open>text.split("\n")\<close>: never empty, the empty text gives one empty line.\<close>

fun splitLines :: "string \<Rightarrow> string list" where
  "splitLines [] = [Nil]"
| "splitLines (c # cs) =
     (if c = CHR 0x0A then [] # splitLines cs
      else (case splitLines cs of
              [] \<Rightarrow> [c # Nil]
            | l # ls \<Rightarrow> (c # l) # ls))"

text \<open>\<open>lines.join("\n")\<close>\<close>

fun joinLines :: "string list \<Rightarrow> string" where
  "joinLines [] = []"
| "joinLines [l] = l"
| "joinLines (l # ls) = l @ [CHR 0x0A] @ joinLines ls"

text \<open>\<open>lines.slice(a, b)\<close> for \<open>a \<le> b\<close>\<close>

definition slice :: "'a list \<Rightarrow> nat \<Rightarrow> nat \<Rightarrow> 'a list" where
  "slice xs a b = take (b - a) (drop a xs)"

text \<open>The inner loop of \<open>findBoundaries\<close>: the first pattern that matches the line.\<close>

fun firstMatch :: "pattern list \<Rightarrow> string \<Rightarrow> (ChunkType \<times> string) option" where
  "firstMatch [] txt = None"
| "firstMatch (p # ps) txt =
     (case regex p txt of
        Some nm \<Rightarrow> Some (ptype p, nm)
      | None \<Rightarrow> firstMatch ps txt)"

text \<open>The outer loop, over the lines from index \<open>i\<close> on.\<close>

fun findBoundariesFrom :: "nat \<Rightarrow> string list \<Rightarrow> pattern list \<Rightarrow> boundary list" where
  "findBoundariesFrom i [] patterns = []"
| "findBoundariesFrom i (txt # rest) patterns =
     (case firstMatch patterns txt of
        Some (t, nm) \<Rightarrow> \<lparr>line = i, btype = t, bname = Some nm\<rparr> # findBoundariesFrom (Suc i) rest patterns
      | None \<Rightarrow> findBoundariesFrom (Suc i) rest patterns)"

definition findBoundaries :: "string list \<Rightarrow> pattern list \<Rightarrow> boundary list" where
  "findBoundaries lines patterns = findBoundariesFrom 0 lines patterns"

text \<open>The template string \<open>`${name} (continued)`\<close>; an undefined name prints as
  \<open>undefined\<close>.\<close>

definition continuedName :: "string option \<Rightarrow> string option" where
  "continuedName nm = Some ((case nm of None \<Rightarrow> ''undefined'' | Some n \<Rightarrow> n) @ '' (continued)'')"

text \<open>\<open>splitLargeChunk\<close>: the loop \<open>for (i = 0; i < lines.length; i += maxLines)\<close>, from \<open>i\<close> on.\<close>

function splitLargeLoop ::
  "(string \<Rightarrow> nat) \<Rightarrow> (string \<Rightarrow> string) \<Rightarrow> string list \<Rightarrow> nat \<Rightarrow> string \<Rightarrow> string \<Rightarrow> string
     \<Rightarrow> ChunkType \<Rightarrow> string option \<Rightarrow> nat \<Rightarrow> chunk list" where
  "splitLargeLoop ct h lines startOffset fpath rpath lang t nm i =
     (if i < length lines then
        (let end = min (i + MAX_CHUNK_LINES) (length lines);
             chunkLines = slice lines i end;
             chunkContent = joinLines chunkLines
         in \<lparr>chunk_id = h (fpath @ '':'' @ showNat (startOffset + i)),
              filePath = fpath, relativePath = rpath, content = chunkContent,
              startLine = startOffset + i + 1, endLine = startOffset + end,
              chunk_type = t, name = (if i = 0 then nm else continuedName nm),
              language = lang, tokens = ct chunkContent\<rparr>
            # splitLargeLoop ct h lines startOffset fpath rpath lang t nm (i + MAX_CHUNK_LINES))
      else [])"
  by pat_completeness auto
termination
  by (relation "measure (\<lambda>(ct, h, lines, startOffset, fpath, rpath, lang, t, nm, i). length lines - i)")
     (auto simp: MAX_CHUNK_LINES_def)

declare splitLargeLoop.simps [simp del]

definition splitLargeChunk ::
  "(string \<Rightarrow> nat) \<Rightarrow> (string \<Rightarrow> string) \<Rightarrow> string list \<Rightarrow> nat \<Rightarrow> string \<Rightarrow> string \<Rightarrow> string
     \<Rightarrow> ChunkType \<Rightarrow> string option \<Rightarrow> chunk list" where
  "splitLargeChunk ct h lines startOffset fpath rpath lang t nm =
     splitLargeLoop ct h lines startOffset fpath rpath lang t nm 0"

text \<open>\<open>chunkBySize\<close>: its loop, then the function.\<close>

function chunkBySizeLoop ::
  "(string \<Rightarrow> nat) \<Rightarrow> (string \<Rightarrow> string) \<Rightarrow> string list \<Rightarrow> string \<Rightarrow> string \<Rightarrow> string
     \<Rightarrow> nat \<Rightarrow> chunk list" where
  "chunkBySizeLoop ct h lines fpath rpath lang i =
     (if i < length lines then
        (let end = min (i + MAX_CHUNK_LINES) (length lines);
             chunkLines = slice lines i end;
             chunkContent = joinLines chunkLines
         in \<lparr>chunk_id = h (fpath @ '':'' @ showNat i),
              filePath = fpath, relativePath = rpath, content = chunkContent,
              startLine = i + 1, endLine = end,
              chunk_type = ct_section, name = None,
              language = lang, tokens = ct chunkContent\<rparr>
            # chunkBySizeLoop ct h lines fpath rpath lang (i + MAX_CHUNK_LINES))
      else [])"
  by pat_completeness auto
termination
  by (relation "measure (\<lambda>(ct, h, lines, fpath, rpath, lang, i). length lines - i)")
     (auto simp: MAX_CHUNK_LINES_def)

declare chunkBySizeLoop.simps [simp del]

definition chunkBySize ::
  "(string \<Rightarrow> nat) \<Rightarrow> (string \<Rightarrow> string) \<Rightarrow> string \<Rightarrow> string \<Rightarrow> string \<Rightarrow> string \<Rightarrow> chunk list" where
  "chunkBySize ct h text fpath rpath lang =
     (let lines = splitLines text in
      if length lines \<le> MAX_CHUNK_LINES then
        [\<lparr>chunk_id = h (fpath @ '':'' @ showNat 0),
          filePath = fpath, relativePath = rpath, content = text,
          startLine = 1, endLine = length lines,
          chunk_type = ct_section, name = None,
          language = lang, tokens = ct text\<rparr>]
      else chunkBySizeLoop ct h lines fpath rpath lang 0)"

text \<open>
  The loop of \<open>chunk\<close> over the boundaries, from the boundary at the head of the list on;
  \<open>nb\<close> is \<open>boundaries.length\<close>.  The subtractions are those of the source: the next
  boundary lies on a later line and \<open>lines\<close> is never empty, so none is cut off at 0.
\<close>

fun boundaryChunks ::
  "(string \<Rightarrow> nat) \<Rightarrow> (string \<Rightarrow> string) \<Rightarrow> string list \<Rightarrow> string \<Rightarrow> string \<Rightarrow> string
     \<Rightarrow> nat \<Rightarrow> boundary list \<Rightarrow> chunk list" where
  "boundaryChunks ct h lines fpath rpath lang nb [] = []"
| "boundaryChunks ct h lines fpath rpath lang nb (b # bs) =
     (let start = line b;
          end = (case bs of [] \<Rightarrow> length lines - 1 | b' # _ \<Rightarrow> line b' - 1);
          chunkLines = slice lines start (end + 1);
          chunkContent = joinLines chunkLines;
          rest = boundaryChunks ct h lines fpath rpath lang nb bs
      in if length chunkLines < MIN_CHUNK_LINES \<and> nb > 1 then rest
         else if length chunkLines > MAX_CHUNK_LINES then
           splitLargeChunk ct h chunkLines start fpath rpath lang (btype b) (bname b) @ rest
         else
           \<lparr>chunk_id = h (fpath @ '':'' @ showNat start),
             filePath = fpath, relativePath = rpath, content = chunkContent,
             startLine = start + 1, endLine = end + 1,
             chunk_type = btype b, name = bname b,
             language = lang, tokens = ct chunkContent\<rparr> # rest)"

definition chunk ::
  "(string \<Rightarrow> nat) \<Rightarrow> (string \<Rightarrow> string) \<Rightarrow> (string \<Rightarrow> pattern list)
     \<Rightarrow> string \<Rightarrow> string \<Rightarrow> string \<Rightarrow> string \<Rightarrow> chunk list" where
  "chunk ct h pats text fpath rpath lang =
     (let lines = splitLines text;
          patterns = pats lang
      in if length patterns = 0 then chunkBySize ct h text fpath rpath lang
         else
           (let boundaries = findBoundaries lines patterns in
            if length boundaries = 0 then chunkBySize ct h text fpath rpath lang
            else
              (let chunks = boundaryChunks ct h lines fpath rpath lang (length boundaries) boundaries;
                   b0 = line (hd boundaries)
               in if b0 > 0 \<and> length (take b0 lines) \<ge> MIN_CHUNK_LINES then
                    (let preambleContent = joinLines (take b0 lines) in
                     \<lparr>chunk_id = h (fpath @ '':'' @ showNat 0),
                       filePath = fpath, relativePath = rpath, content = preambleContent,
                       startLine = 1, endLine = b0,
                       chunk_type = ct_section, name = Some ''imports/preamble'',
                       language = lang, tokens = ct preambleContent\<rparr> # chunks)
                  else chunks)))"

text \<open>Chunks in file order with disjoint ranges: each chunk starts after line \<open>lo\<close>, ends
  no earlier than it starts, and the chunks after it start after its end.\<close>

fun ranges_after :: "nat \<Rightarrow> chunk list \<Rightarrow> bool" where
  "ranges_after lo [] = True"
| "ranges_after lo (c # cs) = (lo < startLine c \<and> startLine c \<le> endLine c \<and> ranges_after (endLine c) cs)"

definition ends_le :: "nat \<Rightarrow> chunk list \<Rightarrow> bool" where
  "ends_le hi cs \<longleftrightarrow> (\<forall>c\<in>set cs. endLine c \<le> hi)"

text \<open>Boundaries on strictly increasing lines, from line \<open>lo\<close> on and below \<open>n\<close>.\<close>

fun boundaries_ok :: "nat \<Rightarrow> nat \<Rightarrow> boundary list \<Rightarrow> bool" where
  "boundaries_ok lo n [] = True"
| "boundaries_ok lo n (b # bs) = (lo \<le> line b \<and> line b < n \<and> boundaries_ok (Suc (line b)) n bs)"

subsection \<open>The entry of the table for Python\<close>

text \<open>
  \<open>/^(?:async\s+)?def\s+(\w+)/m\<close> and \<open>/^class\s+(\w+)/m\<close>.  With the flag \<open>m\<close> the
  anchor matches at the start of the line and after a line terminator inside it (a
  carriage return; the line feed does not occur in a line).
\<close>

definition isSpaceChar :: "char \<Rightarrow> bool" where
  "isSpaceChar c \<longleftrightarrow> (of_char c :: nat) \<in> {9, 10, 11, 12, 13, 32, 160}"

definition isWordChar :: "char \<Rightarrow> bool" where
  "isWordChar c \<longleftrightarrow> (let n = (of_char c :: nat) in
      (48 \<le> n \<and> n \<le> 57) \<or> (65 \<le> n \<and> n \<le> 90) \<or> (97 \<le> n \<and> n \<le> 122) \<or> n = 95)"

definition isLineTerminator :: "char \<Rightarrow> bool" where
  "isLineTerminator c \<longleftrightarrow> (of_char c :: nat) \<in> {10, 13}"

text \<open>A literal, \<open>\s+\<close> and \<open>(\w+)\<close> at the head of the input; each returns the rest.\<close>

definition lit :: "string \<Rightarrow> string \<Rightarrow> string option" where
  "lit w s = (if take (length w) s = w then Some (drop (length w) s) else None)"

definition spaces1 :: "string \<Rightarrow> string option" where
  "spaces1 s = (if takeWhile isSpaceChar s = [] then None else Some (dropWhile isSpaceChar s))"

definition word1 :: "string \<Rightarrow> string option" where
  "word1 s = (if takeWhile isWordChar s = [] then None else Some (takeWhile isWordChar s))"

definition keywordThenName :: "string \<Rightarrow> string \<Rightarrow> string option" where
  "keywordThenName kw s =
     (case lit kw s of
        None \<Rightarrow> None
      | Some r1 \<Rightarrow> (case spaces1 r1 of None \<Rightarrow> None | Some r2 \<Rightarrow> word1 r2))"

definition pyDefAt :: "string \<Rightarrow> string option" where
  "pyDefAt s =
     (case (case lit ''async'' s of
              None \<Rightarrow> None
            | Some r1 \<Rightarrow> (case spaces1 r1 of None \<Rightarrow> None | Some r2 \<Rightarrow> keywordThenName ''def'' r2)) of
        Some nm \<Rightarrow> Some nm
      | None \<Rightarrow> keywordThenName ''def'' s)"

definition pyClassAt :: "string \<Rightarrow> string option" where
  "pyClassAt s = keywordThenName ''class'' s"

fun searchFrom :: "(string \<Rightarrow> string option) \<Rightarrow> bool \<Rightarrow> string \<Rightarrow> string option" where
  "searchFrom f atStart [] = (if atStart then f [] else None)"
| "searchFrom f atStart (c # cs) =
     (case (if atStart then f (c # cs) else None) of
        Some r \<Rightarrow> Some r
      | None \<Rightarrow> searchFrom f (isLineTerminator c) cs)"

definition matchMultiline :: "(string \<Rightarrow> string option) \<Rightarrow> string \<Rightarrow> string option" where
  "matchMultiline f s = searchFrom f True s"

definition pythonPatterns :: "pattern list" where
  "pythonPatterns =
     [\<lparr>regex = matchMultiline pyDefAt, ptype = ct_function\<rparr>,
      \<lparr>regex = matchMultiline pyClassAt, ptype = ct_class\<rparr>]"

definition pythonOnly :: "string \<Rightarrow> pattern list" where
  "pythonOnly lang = (if lang = ''python'' then pythonPatterns else [])"

text \<open>A Python file of twenty lines: two functions of ten lines each.\<close>

definition two_defs :: string where
  "two_defs = ''def a'' @ replicate 10 (CHR 0x0A) @ ''def b'' @ replicate 9 (CHR 0x0A)"


section \<open>cache.ts: the chunk cache\<close>

text \<open>
  The two tables of the SQLite database as a record: the \<open>files\<close> table as a map from
  its primary key, the \<open>chunks\<close> table as the list of its rows in insertion order with
  the counter of \<open>AUTOINCREMENT\<close>.  \<open>Date.now()\<close> is the parameter \<open>now\<close>.
\<close>

record file_record =
  fr_hash :: string
  fr_mtime :: real
  fr_size :: nat
  fr_last_accessed :: real
  fr_language :: string

record chunk_record =
  rec_id :: nat
  file_path :: string
  rec_content :: string
  start_line :: nat
  end_line :: nat
  rec_chunk_type :: ChunkType
  rec_name :: "string option"

record cache_db =
  files :: "string \<rightharpoonup> file_record"
  chunk_rows :: "chunk_record list"
  next_id :: nat

definition empty_cache :: cache_db where
  "empty_cache = \<lparr>files = Map.empty, chunk_rows = [], next_id = 1\<rparr>"

definition getFile :: "real \<Rightarrow> cache_db \<Rightarrow> string \<Rightarrow> real \<Rightarrow> file_record option \<times> cache_db" where
  "getFile now db p mtime =
     (case files db p of
        None \<Rightarrow> (None, db)
      | Some r \<Rightarrow>
          if fr_mtime r \<ge> mtime
          then (Some r, db\<lparr>files := (files db)(p \<mapsto> r\<lparr>fr_last_accessed := now\<rparr>)\<rparr>)
          else (None, db))"

definition getChunks :: "cache_db \<Rightarrow> string \<Rightarrow> chunk_record list" where
  "getChunks db fp = filter (\<lambda>r. file_path r = fp) (chunk_rows db)"

text \<open>\<open>INSERT OR REPLACE\<close> into \<open>files\<close>.  The rows of \<open>chunks\<close> are left as they are
  here; the builder replaces them by \<open>setChunks\<close> right after.\<close>

definition setFile :: "real \<Rightarrow> (string \<Rightarrow> string) \<Rightarrow> cache_db \<Rightarrow> string \<Rightarrow> string \<Rightarrow> real \<Rightarrow> string \<Rightarrow> cache_db" where
  "setFile now h db p text mtime lang =
     db\<lparr>files := (files db)(p \<mapsto>
          \<lparr>fr_hash = h text, fr_mtime = mtime, fr_size = length text,
           fr_last_accessed = now, fr_language = lang\<rparr>)\<rparr>"

text \<open>\<open>chunk.name || null\<close> and \<open>cached.name || undefined\<close>: the empty name counts as
  no name.\<close>

definition nameOrNull :: "string option \<Rightarrow> string option" where
  "nameOrNull nm = (case nm of None \<Rightarrow> None | Some n \<Rightarrow> if n = [] then None else Some n)"

fun insertChunks :: "cache_db \<Rightarrow> string \<Rightarrow> chunk list \<Rightarrow> cache_db" where
  "insertChunks db fp [] = db"
| "insertChunks db fp (c # cs) =
     insertChunks
       (db\<lparr>chunk_rows := chunk_rows db @
            [\<lparr>rec_id = next_id db, file_path = fp, rec_content = content c,
              start_line = startLine c, end_line = endLine c,
              rec_chunk_type = chunk_type c, rec_name = nameOrNull (name c)\<rparr>],
          next_id := Suc (next_id db)\<rparr>)
       fp cs"

definition setChunks :: "cache_db \<Rightarrow> string \<Rightarrow> chunk list \<Rightarrow> cache_db" where
  "setChunks db fp cs =
     insertChunks (db\<lparr>chunk_rows := filter (\<lambda>r. file_path r \<noteq> fp) (chunk_rows db)\<rparr>) fp cs"

definition hasCachedChunks :: "real \<Rightarrow> cache_db \<Rightarrow> string \<Rightarrow> real \<Rightarrow> bool \<times> cache_db" where
  "hasCachedChunks now db fp mtime =
     (case getFile now db fp mtime of
        (None, db') \<Rightarrow> (False, db')
      | (Some r, db') \<Rightarrow> (length (filter (\<lambda>r. file_path r = fp) (chunk_rows db')) > 0, db'))"

section \<open>builder.ts: step 3 of ContextBuilder.build, chunking with the cache\<close>

record source_file =
  sf_path :: string
  sf_relativePath :: string
  sf_content :: string
  sf_language :: string
  sf_size :: nat
  sf_mtime :: real

text \<open>The loop that separates cached from uncached files; the freshness test touches
  the \<open>files\<close> table.\<close>

fun separateFiles ::
  "real \<Rightarrow> cache_db \<Rightarrow> source_file list \<Rightarrow> source_file list \<times> source_file list \<times> cache_db" where
  "separateFiles now db [] = ([], [], db)"
| "separateFiles now db (f # fs) =
     (case hasCachedChunks now db (sf_path f) (sf_mtime f) of
        (hit, db') \<Rightarrow>
          (case separateFiles now db' fs of
             (cachedFiles, uncachedFiles, db'') \<Rightarrow>
               if hit then (f # cachedFiles, uncachedFiles, db'')
               else (cachedFiles, f # uncachedFiles, db'')))"

text \<open>A chunk rebuilt from a cache row.\<close>

fun cachedChunks ::
  "(string \<Rightarrow> nat) \<Rightarrow> token_cache \<Rightarrow> source_file \<Rightarrow> chunk_record list \<Rightarrow> chunk list \<times> token_cache" where
  "cachedChunks ct tc f [] = ([], tc)"
| "cachedChunks ct tc f (cached # rows) =
     (case tokenCache_count ct tc (rec_content cached) of
        (n, tc') \<Rightarrow>
          (case cachedChunks ct tc' f rows of
             (cs, tc'') \<Rightarrow>
               (\<lparr>chunk_id = sf_path f @ '':'' @ showNat (start_line cached),
                 filePath = sf_path f, relativePath = sf_relativePath f,
                 content = rec_content cached,
                 startLine = start_line cached, endLine = end_line cached,
                 chunk_type = rec_chunk_type cached, name = nameOrNull (rec_name cached),
                 language = sf_language f, tokens = n\<rparr> # cs, tc'')))"

fun loadCachedFiles ::
  "(string \<Rightarrow> nat) \<Rightarrow> cache_db \<Rightarrow> token_cache \<Rightarrow> source_file list \<Rightarrow> chunk list \<times> token_cache" where
  "loadCachedFiles ct db tc [] = ([], tc)"
| "loadCachedFiles ct db tc (f # fs) =
     (case cachedChunks ct tc f (getChunks db (sf_path f)) of
        (cs, tc') \<Rightarrow>
          (case loadCachedFiles ct db tc' fs of
             (ds, tc'') \<Rightarrow> (cs @ ds, tc'')))"

text \<open>\<open>chunkFilesParallel\<close>: the chunks of the files, in the order of the files.\<close>

definition chunkFilesParallel ::
  "(string \<Rightarrow> nat) \<Rightarrow> (string \<Rightarrow> string) \<Rightarrow> (string \<Rightarrow> pattern list) \<Rightarrow> source_file list \<Rightarrow> chunk list" where
  "chunkFilesParallel ct h pats fs =
     concat (map (\<lambda>f. chunk ct h pats (sf_content f) (sf_path f) (sf_relativePath f) (sf_language f)) fs)"

text \<open>\<open>cacheChunksAsync\<close>: it contains no \<open>await\<close>, so it has run when the call returns.\<close>

fun cacheChunksAsync ::
  "real \<Rightarrow> (string \<Rightarrow> string) \<Rightarrow> cache_db \<Rightarrow> source_file list \<Rightarrow> chunk list \<Rightarrow> cache_db" where
  "cacheChunksAsync now h db [] chunks = db"
| "cacheChunksAsync now h db (f # fs) chunks =
     (let fileChunks = filter (\<lambda>c. filePath c = sf_path f) chunks in
      if fileChunks \<noteq> [] then
        cacheChunksAsync now h
          (setChunks (setFile now h db (sf_path f) (sf_content f) (sf_mtime f) (sf_language f))
             (sf_path f) fileChunks)
          fs chunks
      else cacheChunksAsync now h db fs chunks)"

definition buildChunks ::
  "(string \<Rightarrow> nat) \<Rightarrow> (string \<Rightarrow> string) \<Rightarrow> (string \<Rightarrow> pattern list) \<Rightarrow> real
     \<Rightarrow> cache_db \<Rightarrow> token_cache \<Rightarrow> source_file list \<Rightarrow> chunk list \<times> cache_db \<times> token_cache" where
  "buildChunks ct h pats now db tc fs =
     (case separateFiles now db fs of
        (cachedFiles, uncachedFiles, db1) \<Rightarrow>
          (case loadCachedFiles ct db1 tc cachedFiles of
             (allChunks, tc1) \<Rightarrow>
               if length uncachedFiles > 0 then
                 (let newChunks = chunkFilesParallel ct h pats uncachedFiles in
                  (allChunks @ newChunks, cacheChunksAsync now h db1 uncachedFiles newChunks, tc1))
               else (allChunks, db1, tc1)))"

text \<open>The Python file of twenty lines as a discovered file.\<close>

definition two_defs_file :: source_file where
  "two_defs_file =
     \<lparr>sf_path = ''/r/m.py'', sf_relativePath = ''m.py'', sf_content = two_defs,
      sf_language = ''python'', sf_size = 30, sf_mtime = 1\<rparr>"

text \<open>A cold run on the empty cache, and a hot run on the cache the cold run left.\<close>

definition cold_run :: "(string \<Rightarrow> nat) \<Rightarrow> (string \<Rightarrow> string) \<Rightarrow> chunk list \<times> cache_db \<times> token_cache" where
  "cold_run ct h = buildChunks ct h pythonOnly 0 empty_cache Map.empty [two_defs_file]"

definition hot_run :: "(string \<Rightarrow> nat) \<Rightarrow> (string \<Rightarrow> string) \<Rightarrow> chunk list \<times> cache_db \<times> token_cache" where
  "hot_run ct h = buildChunks ct h pythonOnly 1 (fst (snd (cold_run ct h))) Map.empty [two_defs_file]"


section \<open>rankers/keyword.ts: KeywordRanker\<close>

definition CONTENT_WEIGHT :: real where "CONTENT_WEIGHT = 1.0"
definition PATH_WEIGHT :: real where "PATH_WEIGHT = 2.0"
definition NAME_WEIGHT :: real where "NAME_WEIGHT = 3.0"

definition STOPWORDS :: "string list" where
  "STOPWORDS =
     [''a'', ''an'', ''and'', ''are'', ''as'', ''at'', ''be'', ''by'', ''for'', ''from'',
      ''has'', ''have'', ''he'', ''in'', ''is'', ''it'', ''its'', ''of'', ''on'', ''or'',
      ''that'', ''the'', ''to'', ''was'', ''were'', ''will'', ''with'', ''this'', ''which'',
      ''how'', ''what'', ''when'', ''where'', ''who'', ''why'', ''can'', ''could'', ''would'',
      ''should'', ''may'', ''might'', ''must'', ''do'', ''does'', ''did'', ''done'',
      ''explain'', ''describe'', ''show'', ''tell'', ''find'', ''get'', ''called'',
      ''function'', ''class'', ''file'', ''code'']"

definition isLowerAZ :: "char \<Rightarrow> bool" where
  "isLowerAZ c \<longleftrightarrow> (97::nat) \<le> of_char c \<and> of_char c \<le> (122::nat)"

definition isUpperAZ :: "char \<Rightarrow> bool" where
  "isUpperAZ c \<longleftrightarrow> (65::nat) \<le> of_char c \<and> of_char c \<le> (90::nat)"

text \<open>\<open>query.match(/\.\w+/g)\<close>: the matches from left to right, each with its dot.\<close>

function dotMethods :: "string \<Rightarrow> string list" where
  "dotMethods [] = []"
| "dotMethods (c # cs) =
     (if c = CHR ''.'' \<and> takeWhile isWordChar cs \<noteq> []
      then (c # takeWhile isWordChar cs) # dotMethods (dropWhile isWordChar cs)
      else dotMethods cs)"
  by pat_completeness auto
termination
  by (relation "measure length") (auto simp: length_dropWhile_le less_Suc_eq_le)

text \<open>\<open>query.match(/"([^"]+)"|'([^']+)'/g)\<close>: the matches from left to right, each with
  its two quotes.\<close>

function quotedTerms :: "string \<Rightarrow> string list" where
  "quotedTerms [] = []"
| "quotedTerms (c # cs) =
     (if (c = CHR 0x22 \<or> c = CHR 0x27)
         \<and> takeWhile (\<lambda>d. d \<noteq> c) cs \<noteq> [] \<and> dropWhile (\<lambda>d. d \<noteq> c) cs \<noteq> []
      then (c # takeWhile (\<lambda>d. d \<noteq> c) cs @ [c]) # quotedTerms (tl (dropWhile (\<lambda>d. d \<noteq> c) cs))
      else quotedTerms cs)"
  by pat_completeness auto
termination
proof (relation "measure length")
  show "wf (measure length)" by simp
next
  fix c :: char and cs :: string
  assume "(c = CHR 0x22 \<or> c = CHR 0x27) \<and> takeWhile (\<lambda>d. d \<noteq> c) cs \<noteq> [] \<and> dropWhile (\<lambda>d. d \<noteq> c) cs \<noteq> []"
  have "length (tl (dropWhile (\<lambda>d. d \<noteq> c) cs)) \<le> length (dropWhile (\<lambda>d. d \<noteq> c) cs)" by simp
  also have "\<dots> \<le> length cs" by (rule length_dropWhile_le)
  finally show "(tl (dropWhile (\<lambda>d. d \<noteq> c) cs), c # cs) \<in> measure length" by simp
next
  fix c :: char and cs :: string
  show "(cs, c # cs) \<in> measure length" by simp
qed

text \<open>The set of important terms, as the list of its elements in insertion order.\<close>

definition extractImportantTerms :: "string \<Rightarrow> string list" where
  "extractImportantTerms query =
     map (\<lambda>method. toLowerCase (drop 1 method)) (dotMethods query)
     @ map (\<lambda>term. toLowerCase (filter (\<lambda>c. c \<noteq> CHR 0x22 \<and> c \<noteq> CHR 0x27) term)) (quotedTerms query)"

text \<open>\<open>.replace(/([a-z])([A-Z])/g, "$1 $2")\<close>\<close>

fun splitCamel :: "string \<Rightarrow> string" where
  "splitCamel (a # b # cs) =
     (if isLowerAZ a \<and> isUpperAZ b then a # CHR '' '' # b # splitCamel cs
      else a # splitCamel (b # cs))"
| "splitCamel cs = cs"

text \<open>\<open>.replace(/[_-]/g, " ")\<close>\<close>

definition replaceSeparators :: "string \<Rightarrow> string" where
  "replaceSeparators s = map (\<lambda>c. if c = CHR ''_'' \<or> c = CHR ''-'' then CHR '' '' else c) s"

text \<open>\<open>.split(/[\s\W]+/)\<close>: the fields between the runs of characters that are not word
  characters; a run at either end of the text leaves an empty field there.\<close>

fun splitFields :: "string \<Rightarrow> bool \<Rightarrow> string \<Rightarrow> string list" where
  "splitFields cur inSep [] = [cur]"
| "splitFields cur inSep (c # cs) =
     (if isWordChar c then splitFields (cur @ [c]) False cs
      else if inSep then splitFields cur True cs
      else cur # splitFields [] True cs)"

definition splitNonWord :: "string \<Rightarrow> string list" where
  "splitNonWord s = splitFields [] False s"

definition tokenize :: "string \<Rightarrow> bool \<Rightarrow> bool \<Rightarrow> string list" where
  "tokenize text filterStopwords applyStemming =
     (let tokens0 = filter (\<lambda>t. length t > 1)
                     (splitNonWord (toLowerCase (replaceSeparators (splitCamel text))));
          tokens1 = (if filterStopwords then filter (\<lambda>t. t \<notin> set STOPWORDS) tokens0 else tokens0)
      in if applyStemming then map stem tokens1 else tokens1)"

text \<open>\<open>t.includes(q)\<close>\<close>

fun includesStr :: "string \<Rightarrow> string \<Rightarrow> bool" where
  "includesStr [] q = (q = [])"
| "includesStr (c # cs) q = (take (length q) (c # cs) = q \<or> includesStr cs q)"

definition tokenMatches :: "string \<Rightarrow> string \<Rightarrow> bool" where
  "tokenMatches qt t \<longleftrightarrow> includesStr t qt \<or> includesStr qt t"

definition boostMultiplier :: "string list \<Rightarrow> string \<Rightarrow> real" where
  "boostMultiplier importantTerms qt = (if qt \<in> set importantTerms then 5.0 else 1.0)"

text \<open>The body of the loop over the query tokens in \<open>score\<close>: what one token adds.\<close>

definition tokenScore ::
  "string list \<Rightarrow> string list \<Rightarrow> string list \<Rightarrow> real \<Rightarrow> string list \<Rightarrow> string \<Rightarrow> real" where
  "tokenScore contentTokens pathTokens nameTokens densityFactor importantTerms qt =
     (let boost = boostMultiplier importantTerms qt;
          contentMatches = length (filter (tokenMatches qt) contentTokens);
          normalizedContentScore =
            (if contentMatches > 0 then (1 + ln (real contentMatches)) * (1 + densityFactor) else 0);
          pathMatches = length (filter (tokenMatches qt) pathTokens);
          nameMatches = length (filter (tokenMatches qt) nameTokens)
      in normalizedContentScore * CONTENT_WEIGHT * boost
         + real pathMatches * PATH_WEIGHT * boost
         + real nameMatches * NAME_WEIGHT * boost
         + (if qt \<in> set contentTokens then 2 * boost else 0)
         + (if qt \<in> set pathTokens then 10 * boost else 0)
         + (if qt \<in> set nameTokens then 20 * boost else 0))"

definition keywordScore :: "'a chunk_scheme \<Rightarrow> string list \<Rightarrow> string list \<Rightarrow> real" where
  "keywordScore c queryTokens importantTerms =
     (let contentTokens = tokenize (content c) False True;
          pathTokens = tokenize (relativePath c) False True;
          nameTokens = (case name c of
                          None \<Rightarrow> []
                        | Some n \<Rightarrow> if n = [] then [] else tokenize n False True);
          densityFactor = min 1.0 (200 / real (max (length contentTokens) 1));
          s0 = foldl (\<lambda>s qt. s + tokenScore contentTokens pathTokens nameTokens densityFactor importantTerms qt)
                 0 queryTokens;
          allTokensPresent =
            list_all (\<lambda>qt. list_ex (tokenMatches qt) contentTokens
                          \<or> list_ex (tokenMatches qt) pathTokens
                          \<or> list_ex (tokenMatches qt) nameTokens) queryTokens;
          s1 = (if allTokensPresent \<and> length queryTokens > 1 then s0 * 1.5 else s0);
          s2 = (if includesStr (relativePath c) ''.test.'' \<or> includesStr (relativePath c) ''.spec.''
                   \<or> includesStr (relativePath c) ''__fixtures__'' \<or> includesStr (relativePath c) ''__tests__''
                then s1 * 0.5 else s1);
          s3 = (if includesStr (relativePath c) ''/codemod/'' \<or> includesStr (relativePath c) ''/codemods/''
                then s2 * 0.3 else s2)
      in if includesStr (relativePath c) ''prepare'' \<and> \<not> list_ex (\<lambda>t. includesStr t ''prepar'') queryTokens
         then s3 * 0.7 else s3)"

text \<open>\<open>{ ...chunk, score }\<close>\<close>

definition withScore :: "chunk \<Rightarrow> real \<Rightarrow> scored_chunk" where
  "withScore c s =
     \<lparr>chunk_id = chunk_id c, filePath = filePath c, relativePath = relativePath c,
      content = content c, startLine = startLine c, endLine = endLine c,
      chunk_type = chunk_type c, name = name c, language = language c,
      tokens = tokens c, score = s\<rparr>"

text \<open>\<open>scored.sort((a, b) => b.score - a.score)\<close>: the sort of the language is stable,
  so this is the stable sort by descending score.\<close>

definition sortByScoreDesc :: "scored_chunk list \<Rightarrow> scored_chunk list" where
  "sortByScoreDesc scored = sort_key (\<lambda>c. - score c) scored"

definition keywordRank :: "chunk list \<Rightarrow> string \<Rightarrow> scored_chunk list" where
  "keywordRank chunks query =
     (let queryTokens = tokenize query True True in
      if length queryTokens = 0 then map (\<lambda>c. withScore c 0) chunks
      else
        (let importantTerms = extractImportantTerms query in
         sortByScoreDesc (map (\<lambda>c. withScore c (keywordScore c queryTokens importantTerms)) chunks)))"


section \<open>utils.ts: normalize and cosineSimilarity\<close>

text \<open>\<open>Math.min(...scores)\<close> and \<open>Math.max(...scores)\<close> of a non-empty array\<close>

definition minOf :: "real list \<Rightarrow> real" where
  "minOf scores = fold min (tl scores) (hd scores)"

definition maxOf :: "real list \<Rightarrow> real" where
  "maxOf scores = fold max (tl scores) (hd scores)"

definition normalize :: "real list \<Rightarrow> real list" where
  "normalize scores =
     (if length scores = 0 then []
      else
        (let mn = minOf scores; mx = maxOf scores; range = mx - mn in
         if range = 0 then map (\<lambda>s. 0.5) scores
         else map (\<lambda>s. (s - mn) / range) scores))"

text \<open>The loop of \<open>cosineSimilarity\<close> over the two vectors, with its three sums.\<close>

fun cosineSums :: "real list \<Rightarrow> real list \<Rightarrow> real \<times> real \<times> real \<Rightarrow> real \<times> real \<times> real" where
  "cosineSums (x # xs) (y # ys) (dot, normA, normB) =
     cosineSums xs ys (dot + x * y, normA + x * x, normB + y * y)"
| "cosineSums xs ys acc = acc"

definition cosineSimilarity :: "real list \<Rightarrow> real list \<Rightarrow> error + real" where
  "cosineSimilarity a b =
     (if length a \<noteq> length b then Inl VectorLengthMismatch
      else
        (case cosineSums a b (0, 0, 0) of
           (dot, normA, normB) \<Rightarrow>
             (let magnitude = sqrt normA * sqrt normB in
              Inr (if magnitude = 0 then 0 else dot / magnitude))))"

section \<open>rankers/embedding.ts: EmbeddingRanker.rank\<close>

text \<open>
  The embedding of a text, whether it comes from the memory cache, the disk cache, the
  provider or the zero vector of a failed batch, is the parameter \<open>embedText\<close>.
\<close>

definition MAX_EMBED_CHARS :: nat where "MAX_EMBED_CHARS = 8000"

fun typeName :: "ChunkType \<Rightarrow> string" where
  "typeName ct_function = ''function''"
| "typeName ct_class = ''class''"
| "typeName ct_method = ''method''"
| "typeName ct_interface = ''interface''"
| "typeName ct_type = ''type''"
| "typeName ct_enum = ''enum''"
| "typeName ct_module = ''module''"
| "typeName ct_section = ''section''"
| "typeName ct_constant = ''constant''"
| "typeName ct_variable = ''variable''"

definition enrichWithContext :: "chunk \<Rightarrow> string" where
  "enrichWithContext c =
     joinLines
       ([''File: '' @ relativePath c]
        @ (case name c of
             None \<Rightarrow> []
           | Some n \<Rightarrow> if n = [] then [] else [typeName (chunk_type c) @ '': '' @ n])
        @ [take MAX_EMBED_CHARS (content c)])"

text \<open>The \<open>map\<close> that scores the chunks; the first vector of unequal length raises.\<close>

fun embeddingScores :: "real list \<Rightarrow> (string \<Rightarrow> real list) \<Rightarrow> chunk list \<Rightarrow> error + scored_chunk list" where
  "embeddingScores queryEmbedding embedText [] = Inr []"
| "embeddingScores queryEmbedding embedText (c # cs) =
     (case cosineSimilarity queryEmbedding (embedText (enrichWithContext c)) of
        Inl e \<Rightarrow> Inl e
      | Inr s \<Rightarrow>
          (case embeddingScores queryEmbedding embedText cs of
             Inl e \<Rightarrow> Inl e
           | Inr rest \<Rightarrow> Inr (withScore c s # rest)))"

definition embeddingRank :: "(string \<Rightarrow> real list) \<Rightarrow> chunk list \<Rightarrow> string \<Rightarrow> error + scored_chunk list" where
  "embeddingRank embedText chunks query =
     (case embeddingScores (embedText query) embedText chunks of
        Inl e \<Rightarrow> Inl e
      | Inr scored \<Rightarrow> Inr (sortByScoreDesc scored))"

section \<open>rankers/hybrid.ts: HybridRanker\<close>

definition KEYWORD_WEIGHT :: real where "KEYWORD_WEIGHT = 0.4"
definition EMBEDDING_WEIGHT :: real where "EMBEDDING_WEIGHT = 0.4"
definition IMPORTANCE_WEIGHT :: real where "IMPORTANCE_WEIGHT = 0.2"
definition MARKDOWN_PENALTY :: real where "MARKDOWN_PENALTY = 0.6"

text \<open>
  The state of a ranker object: the importance map and the option \<open>fast\<close> given to the
  constructor, and the two external services, the text generator behind \<open>generateHyDE\<close>
  (which falls back to the query itself) and the embedder.
\<close>

record ranker_env =
  importanceScores :: "string \<rightharpoonup> real"
  fast :: bool
  generateHyDE :: "string \<Rightarrow> string"
  embedder :: "string \<Rightarrow> real list"

definition getImportance :: "ranker_env \<Rightarrow> chunk \<Rightarrow> real" where
  "getImportance env c =
     (let importance = (case importanceScores env (filePath c) of None \<Rightarrow> 0.5 | Some v \<Rightarrow> v) in
      if language c = ''markdown'' \<or> language c = ''mdx'' then importance * MARKDOWN_PENALTY
      else importance)"

text \<open>The loop that fills \<open>embeddingScoreMap\<close>: a later entry with the same id replaces
  an earlier one.\<close>

definition embeddingScoreMap :: "scored_chunk list \<Rightarrow> (string \<rightharpoonup> real)" where
  "embeddingScoreMap embeddingScored = fold (\<lambda>scored m. m(chunk_id scored \<mapsto> score scored)) embeddingScored Map.empty"

text \<open>
  The \<open>map\<close> that combines the scores: chunk \<open>i\<close> of the input is paired with entry \<open>i\<close>
  of \<open>normalizedKeyword\<close>.  The two lists are of equal length, so \<open>zip\<close> pairs them as the
  index does.
\<close>

definition combineScores :: "ranker_env \<Rightarrow> (string \<rightharpoonup> real) \<Rightarrow> chunk list \<Rightarrow> real list \<Rightarrow> scored_chunk list" where
  "combineScores env scoreMap chunks normalizedKeyword =
     map (\<lambda>(c, keywordScore).
            (let embeddingScore = (case scoreMap (chunk_id c) of None \<Rightarrow> 0 | Some s \<Rightarrow> s);
                 importanceScore = getImportance env c;
                 finalScore = keywordScore * KEYWORD_WEIGHT
                              + embeddingScore * EMBEDDING_WEIGHT
                              + importanceScore * IMPORTANCE_WEIGHT
             in withScore c finalScore))
         (zip chunks normalizedKeyword)"

definition hybridRank :: "ranker_env \<Rightarrow> chunk list \<Rightarrow> string \<Rightarrow> error + scored_chunk list" where
  "hybridRank env chunks query =
     (if fast env then Inr (keywordRank chunks query)
      else
        (let keywordScored = keywordRank chunks query;
             keywordScores = map score keywordScored;
             hydeDoc = generateHyDE env query
         in case embeddingRank (embedder env) chunks hydeDoc of
              Inl e \<Rightarrow> Inl e
            | Inr embeddingScored \<Rightarrow>
                (let normalizedKeyword = normalize keywordScores in
                 Inr (sortByScoreDesc
                        (combineScores env (embeddingScoreMap embeddingScored) chunks normalizedKeyword)))))"

text \<open>The score the keyword ranker computes for one chunk: 0 when no query token
  survives, the value of \<open>score\<close> otherwise.\<close>

definition rawKeywordScore :: "chunk \<Rightarrow> string \<Rightarrow> real" where
  "rawKeywordScore c query =
     (if length (tokenize query True True) = 0 then 0
      else keywordScore c (tokenize query True True) (extractImportantTerms query))"

text \<open>The fusion formula as the specification states it: each chunk with its own
  normalized keyword score, its own embedding similarity and its file importance.\<close>

definition fusion_spec :: "ranker_env \<Rightarrow> chunk list \<Rightarrow> string \<Rightarrow> chunk \<Rightarrow> real \<Rightarrow> real" where
  "fusion_spec env chunks query c similarity =
     (let rawScores = map (\<lambda>d. rawKeywordScore d query) chunks
      in 0.4 * (if maxOf rawScores = minOf rawScores then 0.5
                else (rawKeywordScore c query - minOf rawScores) / (maxOf rawScores - minOf rawScores))
         + 0.4 * similarity
         + 0.2 * getImportance env c)"

subsection \<open>Two chunks and a query\<close>

definition util_chunk :: chunk where
  "util_chunk = \<lparr>chunk_id = ''u'', filePath = ''/r/util.ts'', relativePath = ''util.ts'',
     content = ''y'', startLine = 1, endLine = 1, chunk_type = ct_section, name = None,
     language = ''typescript'', tokens = 1\<rparr>"

definition login_chunk :: chunk where
  "login_chunk = \<lparr>chunk_id = ''l'', filePath = ''/r/login.ts'', relativePath = ''login.ts'',
     content = ''x'', startLine = 1, endLine = 1, chunk_type = ct_section, name = None,
     language = ''typescript'', tokens = 1\<rparr>"

text \<open>A hybrid ranker whose embedder returns the zero vector, as after a failed batch.\<close>

definition zero_env :: ranker_env where
  "zero_env = \<lparr>importanceScores = Map.empty, fast = False,
                generateHyDE = (\<lambda>q. q), embedder = (\<lambda>t. [0])\<rparr>"

text \<open>A hybrid ranker whose embedder places the query opposite to every chunk.\<close>

definition opposite_env :: ranker_env where
  "opposite_env = \<lparr>importanceScores = Map.empty, fast = False,
                    generateHyDE = (\<lambda>q. q), embedder = (\<lambda>t. if t = ''login'' then [-1] else [1])\<rparr>"

text \<open>Two fast rankers that differ in everything but the option \<open>fast\<close>.\<close>

definition fast_env :: ranker_env where
  "fast_env = \<lparr>importanceScores = Map.empty, fast = True,
                generateHyDE = (\<lambda>q. q), embedder = (\<lambda>t. [0])\<rparr>"

definition fast_env' :: ranker_env where
  "fast_env' = \<lparr>importanceScores = [''/r/util.ts'' \<mapsto> 1], fast = True,
                 generateHyDE = (\<lambda>q. ''def login(): pass''), embedder = (\<lambda>t. [1, 2])\<rparr>"

text \<open>A chunk named \<open>execute\<close>, for the query of the specification's scenario.\<close>

definition execute_chunk :: chunk where
  "execute_chunk = \<lparr>chunk_id = ''e'', filePath = ''/r/runner.ts'', relativePath = ''runner.ts'',
     content = ''x'', startLine = 1, endLine = 1, chunk_type = ct_function, name = Some ''execute'',
     language = ''typescript'', tokens = 1\<rparr>"


section \<open>Selector (builder.ts, ContextBuilder.selectWithinBudget)\<close>

text \<open>
  \<open>effectiveBudget = Math.floor(this.budget * 0.95)\<close>; the budget is a token count.
  The products with 0.95 and 0.98 are exact here; for budgets of practical size the
  doubles of the source give the same floor and the same comparisons.
\<close>

definition effectiveBudget :: "nat \<Rightarrow> nat" where
  "effectiveBudget budget = nat \<lfloor>real budget * 0.95\<rfloor>"

definition chunkCost :: "'a chunk_scheme \<Rightarrow> nat" where
  "chunkCost c = tokens c + 50"

text \<open>
  The \<open>for\<close> loop over the ranked chunks, with its two mutable variables \<open>selected\<close>
  and \<open>currentTokens\<close> as accumulators.  The \<open>break\<close> test is made after each chunk,
  whether or not the chunk was accepted.
\<close>

fun selectLoop :: "nat \<Rightarrow> scored_chunk list \<Rightarrow> scored_chunk list \<Rightarrow> nat \<Rightarrow> scored_chunk list" where
  "selectLoop eff [] selected currentTokens = selected"
| "selectLoop eff (c # cs) selected currentTokens =
     (let accept = (currentTokens + chunkCost c \<le> eff);
          selected' = (if accept then selected @ [c] else selected);
          currentTokens' = (if accept then currentTokens + chunkCost c else currentTokens)
      in if real currentTokens' \<ge> real eff * 0.98 then selected'
         else selectLoop eff cs selected' currentTokens')"

definition selectWithinBudget :: "nat \<Rightarrow> scored_chunk list \<Rightarrow> scored_chunk list" where
  "selectWithinBudget budget chunks = selectLoop (effectiveBudget budget) chunks [] 0"

definition totalCost :: "scored_chunk list \<Rightarrow> nat" where
  "totalCost cs = sum_list (map chunkCost cs)"
text \<open>Invariant of the loop: every accepted chunk fitted, and was accepted before the
  running total had reached 98 percent.\<close>

definition accepted_ok :: "nat \<Rightarrow> scored_chunk list \<Rightarrow> bool" where
  "accepted_ok eff sel \<longleftrightarrow>
     (\<forall>pre c post. sel = pre @ c # post \<longrightarrow>
        totalCost pre + chunkCost c \<le> eff \<and> real (totalCost pre) < real eff * 0.98)"


text \<open>Two chunks for the budget scenarios of the specification.\<close>

definition clamp_chunk :: scored_chunk where
  "clamp_chunk = \<lparr>chunk_id = ''c'', filePath = ''/r/a.ts'', relativePath = ''a.ts'',
     content = ''x'', startLine = 1, endLine = 1, chunk_type = ct_section, name = None,
     language = ''typescript'', tokens = 10000, score = 1\<rparr>"

definition tiny_chunk :: scored_chunk where
  "tiny_chunk = \<lparr>chunk_id = ''t'', filePath = ''/r/b.ts'', relativePath = ''b.ts'',
     content = ''y'', startLine = 1, endLine = 1, chunk_type = ct_section, name = None,
     language = ''typescript'', tokens = 100, score = 0\<rparr>"





section \<open>Properties of the stemmer\<close>
lemma endsWith_iff_suffix: "endsWith suf word \<longleftrightarrow> suffix suf word"
proof
  assume "endsWith suf word"
  then have "word = take (length word - length suf) word @ suf"
    unfolding endsWith_def by (metis append_take_drop_id)
  then show "suffix suf word" unfolding suffix_def by blast
next
  assume "suffix suf word"
  then obtain pre where "word = pre @ suf" unfolding suffix_def by blast
  then show "endsWith suf word" unfolding endsWith_def by simp
qed

lemma stemLoop_find:
  "stemLoop rules w =
     (case find (\<lambda>(suf, rep). suffix suf w \<and> 3 \<le> length (replaceSuffix suf rep w)) rules of
        None \<Rightarrow> w | Some (suf, rep) \<Rightarrow> replaceSuffix suf rep w)"
  by (induction rules w rule: stemLoop.induct) (auto simp: endsWith_iff_suffix Let_def)

lemma stemLoop_length: "3 \<le> length w \<Longrightarrow> 3 \<le> length (stemLoop rules w)"
  by (induction rules w rule: stemLoop.induct) (auto simp: Let_def)

text \<open>
  C7 (as amended).  Words shorter than four characters are returned unchanged.  For a
  longer word the stemmer tries the rules in their fixed order and applies the rewrite
  of the first rule whose suffix matches \<^emph>\<open>and\<close> whose result has at least three
  characters; a matching rule whose result would be shorter is passed over and the later
  rules are still tried.  When no rule qualifies the word is returned unchanged.  The
  stem of a word of at least three characters has at least three characters.
\<close>
theorem stem_first_applicable_rule:
  "(length w < 4 \<longrightarrow> stem w = w)
   \<and> (4 \<le> length w \<longrightarrow>
        stem w = (case find (\<lambda>(suf, rep). suffix suf w \<and> 3 \<le> length (replaceSuffix suf rep w)) STEM_RULES of
                    None \<Rightarrow> w | Some (suf, rep) \<Rightarrow> replaceSuffix suf rep w))
   \<and> (3 \<le> length w \<longrightarrow> 3 \<le> length (stem w))"
  using stemLoop_find[of STEM_RULES w] stemLoop_length[of w STEM_RULES]
  by (simp add: stem_def)

lemma stem_uses: "stem ''uses'' = ''use''"
  by (simp add: stem_def STEM_RULES_def endsWith_def replaceSuffix_def)

lemma stem_first_match_uses: "stem_first_match ''uses'' = ''uses''"
  by (simp add: stem_first_match_def STEM_RULES_def endsWith_def replaceSuffix_def)

text \<open>
  C7 as stated reads the rule as "the first rule whose suffix matches; refuse it when the
  result is too short".  On \<open>uses\<close> the first matching rule is \<open>es \<rightarrow> \<emptyset>\<close>, whose result
  \<open>us\<close> is refused; the loop of the source goes on to \<open>s \<rightarrow> \<emptyset>\<close> and returns \<open>use\<close>.
\<close>
theorem stem_first_match_counterexample:
  "find (\<lambda>(suf, replacement). endsWith suf ''uses'') STEM_RULES = Some (''es'', '''')
   \<and> stem ''uses'' = ''use''
   \<and> stem ''uses'' \<noteq> stem_first_match ''uses''"
  unfolding stem_uses stem_first_match_uses
  by (simp add: STEM_RULES_def endsWith_def)

lemma find_applicable_uses:
  "find (\<lambda>(suf, rep). suffix suf ''uses'' \<and> 3 \<le> length (replaceSuffix suf rep ''uses'')) STEM_RULES
     = Some (''s'', [])"
  by (simp add: STEM_RULES_def endsWith_iff_suffix[symmetric] endsWith_def replaceSuffix_def)

theorem stem_first_applicable_rule_witness:
  "length ''by'' < 4 \<and> stem ''by'' = ''by''
   \<and> 4 \<le> length ''uses''
   \<and> find (\<lambda>(suf, rep). suffix suf ''uses'' \<and> 3 \<le> length (replaceSuffix suf rep ''uses'')) STEM_RULES
        = Some (''s'', [])
   \<and> stem ''uses'' = replaceSuffix ''s'' [] ''uses''
   \<and> replaceSuffix ''s'' [] ''uses'' = ''use''
   \<and> 3 \<le> length ''uses'' \<and> 3 \<le> length (stem ''uses'')"
proof -
  have l: "4 \<le> length ''uses''" "3 \<le> length ''uses''" "length ''by'' < 4" by simp_all
  from stem_first_applicable_rule[of "''uses''"] l
  have s: "stem ''uses'' =
      (case find (\<lambda>(suf, rep). suffix suf ''uses'' \<and> 3 \<le> length (replaceSuffix suf rep ''uses'')) STEM_RULES of
         None \<Rightarrow> ''uses'' | Some (suf, rep) \<Rightarrow> replaceSuffix suf rep ''uses'')"
    and g: "3 \<le> length (stem ''uses'')" by blast+
  have s': "stem ''uses'' = replaceSuffix ''s'' [] ''uses''"
    using s unfolding find_applicable_uses by simp
  have r: "replaceSuffix ''s'' [] ''uses'' = ''use''" by (simp add: replaceSuffix_def)
  from stem_first_applicable_rule[of "''by''"] l have b: "stem ''by'' = ''by''" by blast
  from l s' r g b find_applicable_uses show ?thesis by blast
qed


section \<open>Properties of parseBudget\<close>










subsection \<open>Budgets that the doubles hold exactly\<close>










subsection \<open>Evaluation\<close>


























section \<open>Properties of the token cache\<close>


lemma length_showNat_mono: "m \<le> n \<Longrightarrow> length (showNat m) \<le> length (showNat n)"
proof (induction n arbitrary: m rule: showNat.induct)
  case (1 n)
  show ?case
  proof (cases "n < 10")
    case True
    with 1(2) have "m < 10" by simp
    with True show ?thesis by (simp add: showNat.simps[of m] showNat.simps[of n])
  next
    case False
    show ?thesis
    proof (cases "m < 10")
      case True
      with False show ?thesis by (simp add: showNat.simps[of m] showNat.simps[of n])
    next
      case F: False
      from 1(2) have "m div 10 \<le> n div 10" by (rule div_le_mono)
      from 1(1)[OF False this] False F show ?thesis
        by (simp add: showNat.simps[of m] showNat.simps[of n])
    qed
  qed
qed

lemma hash_short: "length t \<le> 100 \<Longrightarrow> hash t = t @ showNat (length t)"
  by (simp add: hash_def)

lemma hash_inj_short:
  assumes "length t1 \<le> 100" "length t2 \<le> 100" "hash t1 = hash t2"
  shows "t1 = t2"
proof -
  from assms have eq: "t1 @ showNat (length t1) = t2 @ showNat (length t2)"
    by (simp add: hash_short)
  then have len: "length t1 + length (showNat (length t1)) = length t2 + length (showNat (length t2))"
    by (metis length_append)
  have "length t1 = length t2"
  proof (rule ccontr)
    assume ne: "length t1 \<noteq> length t2"
    show False
    proof (cases "length t1 < length t2")
      case True
      then have "length (showNat (length t1)) \<le> length (showNat (length t2))"
        by (intro length_showNat_mono) simp
      with True len show False by simp
    next
      case False
      with ne have lt: "length t2 < length t1" by simp
      then have "length (showNat (length t2)) \<le> length (showNat (length t1))"
        by (intro length_showNat_mono) simp
      with lt len show False by simp
    qed
  qed
  with eq show ?thesis by simp
qed

lemma tokenCache_count_hit:
  "cache (hash t) = Some n \<Longrightarrow> tokenCache_count ct cache t = (n, cache)"
  by (simp add: tokenCache_count_def)

lemma tokenCache_count_miss:
  "cache (hash t) = None \<Longrightarrow> tokenCache_count ct cache t = (ct t, cache(hash t \<mapsto> ct t))"
  by (simp add: tokenCache_count_def Let_def)

lemma tokenCache_count_exact:
  assumes "cache (hash t) = None \<or> cache (hash t) = Some (ct t)"
  shows "fst (tokenCache_count ct cache t) = ct t"
  using assms by (auto simp: tokenCache_count_hit tokenCache_count_miss)

lemma tokenCache_count_keeps_exact:
  assumes "exact_on ct cache (insert t S)" "inj_on hash (insert t S)"
  shows "exact_on ct (snd (tokenCache_count ct cache t)) S"
proof (cases "cache (hash t)")
  case None
  then have c: "snd (tokenCache_count ct cache t) = cache(hash t \<mapsto> ct t)"
    by (simp add: tokenCache_count_miss)
  show ?thesis unfolding exact_on_def c
  proof
    fix u assume u: "u \<in> S"
    show "(cache(hash t \<mapsto> ct t)) (hash u) = None \<or> (cache(hash t \<mapsto> ct t)) (hash u) = Some (ct u)"
    proof (cases "hash u = hash t")
      case True
      from inj_onD[OF assms(2) True] u have "u = t" by blast
      then show ?thesis by simp
    next
      case False
      with assms(1) u show ?thesis by (simp add: exact_on_def)
    qed
  qed
next
  case (Some n)
  then have "snd (tokenCache_count ct cache t) = cache" by (simp add: tokenCache_count_hit)
  with assms(1) show ?thesis by (simp add: exact_on_def)
qed

lemma tokenCache_countAll_exact:
  "exact_on ct cache (set ts) \<Longrightarrow> inj_on hash (set ts) \<Longrightarrow>
   fst (tokenCache_countAll ct cache ts) = map ct ts"
proof (induction ts arbitrary: cache)
  case Nil show ?case by simp
next
  case (Cons t ts)
  from Cons.prems have e: "exact_on ct cache (insert t (set ts))" and i: "inj_on hash (insert t (set ts))"
    by simp_all
  have h: "fst (tokenCache_count ct cache t) = ct t"
    using e by (intro tokenCache_count_exact) (simp add: exact_on_def)
  have "inj_on hash (set ts)" using i by (simp add: inj_on_insert)
  from Cons.IH[OF tokenCache_count_keeps_exact[OF e i] this] h
  show ?case by (simp add: split_beta Let_def)
qed

text \<open>
  C8 (as amended).  The cache is keyed by a fingerprint of the text: its first 100
  characters and its length, and for texts of 1000 characters or more also its last 100
  characters.  A call of \<open>count\<close> that finds an entry under the fingerprint returns the
  stored number, whichever text stored it.  So \<open>count(text)\<close> equals
  \<open>countTokens(text)\<close> whenever the cache holds under the text's fingerprint nothing or
  that text's own count; in a run of calls from the cleared cache over texts with
  pairwise different fingerprints every call returns \<open>countTokens\<close> of its text; and
  texts of at most 100 characters have pairwise different fingerprints.
\<close>
theorem tokenCache_exact_without_collision:
  "(cache (hash t) = None \<or> cache (hash t) = Some (ct t) \<longrightarrow> fst (tokenCache_count ct cache t) = ct t)
   \<and> (\<forall>n. cache (hash t) = Some n \<longrightarrow> tokenCache_count ct cache t = (n, cache))
   \<and> (inj_on hash (set ts) \<longrightarrow> fst (tokenCache_countAll ct (tokenCache_clear cache) ts) = map ct ts)
   \<and> (length t1 \<le> 100 \<and> length t2 \<le> 100 \<and> hash t1 = hash t2 \<longrightarrow> t1 = t2)"
proof -
  have "exact_on ct Map.empty (set ts)" by (simp add: exact_on_def)
  then have "inj_on hash (set ts) \<longrightarrow> fst (tokenCache_countAll ct (tokenCache_clear cache) ts) = map ct ts"
    by (simp add: tokenCache_countAll_exact tokenCache_clear_def)
  then show ?thesis
    using tokenCache_count_exact[of cache t ct] tokenCache_count_hit[of cache t _ ct] hash_inj_short[of t1 t2]
    by blast
qed

lemma collide_length: "length collide_a = 103" "length collide_b = 103"
  by (simp_all add: collide_a_def collide_b_def)

lemma collide_take: "take 100 collide_a = replicate 100 CHR ''a''" "take 100 collide_b = replicate 100 CHR ''a''"
  by (simp_all add: collide_a_def collide_b_def)

lemma collide_hash: "hash collide_a = hash collide_b"
  by (simp add: hash_def collide_length collide_take)

lemma collide_ne: "collide_a \<noteq> collide_b"
  by (simp add: collide_a_def collide_b_def)

lemma countWords_replicate:
  "countWords True (replicate n CHR ''a'' @ s) = countWords True s"
  by (induction n) simp_all

lemma collide_wordCount: "wordCount collide_a = 2" "wordCount collide_b = 1"
proof -
  have r: "replicate 100 CHR ''a'' = CHR ''a'' # replicate 99 CHR ''a''"
    by (simp add: numeral_eq_Suc)
  show "wordCount collide_a = 2" "wordCount collide_b = 1"
    unfolding wordCount_def collide_a_def collide_b_def r
    by (simp_all add: countWords_replicate)
qed

text \<open>
  C8 as stated fails: two different texts of 103 characters with the same first 100
  characters share one cache entry, and the second call returns the count of the first
  text.  The run below uses the word counter as tokenizer; the same happens with every
  tokenizer that tells the two texts apart.
\<close>
theorem tokenCache_collision_counterexample:
  "collide_a \<noteq> collide_b
   \<and> hash collide_a = hash collide_b
   \<and> wordCount collide_b = 1
   \<and> fst (tokenCache_count wordCount (snd (tokenCache_count wordCount Map.empty collide_a)) collide_b) = 2"
proof -
  have 1: "tokenCache_count wordCount Map.empty collide_a = (2, [hash collide_a \<mapsto> 2])"
    by (simp add: tokenCache_count_miss collide_wordCount)
  have 2: "tokenCache_count wordCount [hash collide_a \<mapsto> 2] collide_b = (2, [hash collide_a \<mapsto> 2])"
    by (rule tokenCache_count_hit) (simp add: collide_hash)
  show ?thesis using collide_ne collide_hash collide_wordCount 1 2 by simp
qed

theorem tokenCache_exact_without_collision_witness:
  "(Map.empty (hash ''ab'') = None \<or> Map.empty (hash ''ab'') = Some (wordCount ''ab''))
   \<and> fst (tokenCache_count wordCount Map.empty ''ab'') = wordCount ''ab''
   \<and> [hash ''ab'' \<mapsto> 7::nat] (hash ''ab'') = Some 7
   \<and> tokenCache_count wordCount [hash ''ab'' \<mapsto> 7] ''ab'' = (7, [hash ''ab'' \<mapsto> 7])
   \<and> inj_on hash (set [''ab'', ''cd e'', ''ab''])
   \<and> fst (tokenCache_countAll wordCount (tokenCache_clear Map.empty) [''ab'', ''cd e'', ''ab''])
        = map wordCount [''ab'', ''cd e'', ''ab'']
   \<and> length ''ab'' \<le> 100 \<and> length ''cd e'' \<le> 100
   \<and> hash ''ab'' \<noteq> hash ''cd e''
   \<and> hash ''ab'' = hash ''ab''"
proof -
  note a = tokenCache_exact_without_collision[of Map.empty "''ab''" wordCount "[''ab'', ''cd e'', ''ab'']" "''ab''" "''cd e''"]
  note b = tokenCache_exact_without_collision[of "[hash ''ab'' \<mapsto> 7]" "''ab''" wordCount "[]" "''ab''" "''ab''"]
  have ne: "hash ''ab'' \<noteq> hash ''cd e''" using a by auto
  then have inj: "inj_on hash (set [''ab'', ''cd e'', ''ab''])" by (auto simp: inj_on_def)
  from a b ne inj show ?thesis by simp
qed


section \<open>Properties of the chunker\<close>

lemma splitLines_nonempty: "splitLines s \<noteq> []"
  by (induction s) (auto split: list.splits)

lemma ranges_after_weaken: "ranges_after hi cs \<Longrightarrow> lo \<le> hi \<Longrightarrow> ranges_after lo cs"
  by (cases cs) auto

lemma ranges_after_append:
  "ranges_after lo xs \<Longrightarrow> ends_le hi xs \<Longrightarrow> lo \<le> hi \<Longrightarrow> ranges_after hi ys \<Longrightarrow>
   ranges_after lo (xs @ ys)"
proof (induction xs arbitrary: lo)
  case Nil
  then show ?case by (simp add: ranges_after_weaken)
next
  case (Cons c xs)
  from Cons.prems have "endLine c \<le> hi" "ends_le hi xs" by (simp_all add: ends_le_def)
  with Cons show ?case by simp
qed

lemma ends_le_append: "ends_le hi (xs @ ys) \<longleftrightarrow> ends_le hi xs \<and> ends_le hi ys"
  by (auto simp: ends_le_def)

lemma ranges_after_member:
  "ranges_after lo cs \<Longrightarrow> c \<in> set cs \<Longrightarrow> lo < startLine c \<and> startLine c \<le> endLine c"
proof (induction cs arbitrary: lo)
  case Nil then show ?case by simp
next
  case (Cons d cs)
  show ?case
  proof (cases "c = d")
    case True with Cons.prems show ?thesis by simp
  next
    case False
    with Cons.prems have "c \<in> set cs" "ranges_after (endLine d) cs" by simp_all
    from Cons.IH[OF this(2,1)] Cons.prems(1) show ?thesis by simp
  qed
qed

lemma ranges_after_nth:
  "ranges_after lo cs \<Longrightarrow> i < j \<Longrightarrow> j < length cs \<Longrightarrow> endLine (cs ! i) < startLine (cs ! j)"
proof (induction cs arbitrary: lo i j)
  case Nil then show ?case by simp
next
  case (Cons d cs)
  from Cons.prems(2) obtain j' where j: "j = Suc j'" by (cases j) auto
  with Cons.prems have j': "j' < length cs" by simp
  from Cons.prems(1) have ra: "ranges_after (endLine d) cs" by simp
  show ?case
  proof (cases i)
    case 0
    from ranges_after_member[OF ra nth_mem[OF j']] show ?thesis using 0 j by simp
  next
    case (Suc i')
    with Cons.prems(2) j have "i' < j'" by simp
    from Cons.IH[OF ra this j'] show ?thesis using Suc j by simp
  qed
qed

lemma ranges_after_sorted: "ranges_after lo cs \<Longrightarrow> sorted (map startLine cs)"
proof (induction cs arbitrary: lo)
  case Nil then show ?case by simp
next
  case (Cons d cs)
  then have ra: "ranges_after (endLine d) cs" and se: "startLine d \<le> endLine d" by simp_all
  have "\<forall>c\<in>set cs. startLine d \<le> startLine c"
    using ranges_after_member[OF ra] se by fastforce
  with Cons.IH[OF ra] show ?case by simp
qed

lemma boundaries_ok_weaken: "boundaries_ok lo n bs \<Longrightarrow> lo' \<le> lo \<Longrightarrow> boundaries_ok lo' n bs"
  by (cases bs) auto

lemma findBoundariesFrom_ok:
  "boundaries_ok i (i + length ls) (findBoundariesFrom i ls ps)"
proof (induction ls arbitrary: i)
  case Nil show ?case by simp
next
  case (Cons l ls)
  have ih: "boundaries_ok (Suc i) (i + length (l # ls)) (findBoundariesFrom (Suc i) ls ps)"
    using Cons.IH[of "Suc i"] by simp
  show ?case
  proof (cases "firstMatch ps l")
    case None
    with ih show ?thesis by (simp add: boundaries_ok_weaken)
  next
    case (Some a)
    with ih show ?thesis by (cases a) simp
  qed
qed

lemma length_slice: "b \<le> length xs \<Longrightarrow> length (slice xs a b) = b - a"
  by (simp add: slice_def)

lemma splitLargeLoop_ranges:
  "ranges_after (startOffset + i) (splitLargeLoop ct h ls startOffset fp rp lg t nm i)
   \<and> ends_le (startOffset + max i (length ls)) (splitLargeLoop ct h ls startOffset fp rp lg t nm i)"
proof (induction ct h ls startOffset fp rp lg t nm i rule: splitLargeLoop.induct)
  case (1 ct h ls startOffset fp rp lg t nm i)
  show ?case
  proof (cases "i < length ls")
    case False
    then show ?thesis by (simp add: splitLargeLoop.simps[of _ _ _ _ _ _ _ _ _ i] ends_le_def)
  next
    case True
    let ?e = "min (i + MAX_CHUNK_LINES) (length ls)"
    let ?rest = "splitLargeLoop ct h ls startOffset fp rp lg t nm (i + MAX_CHUNK_LINES)"
    from 1[OF True refl refl refl]
    have ih: "ranges_after (startOffset + (i + MAX_CHUNK_LINES)) ?rest"
      "ends_le (startOffset + max (i + MAX_CHUNK_LINES) (length ls)) ?rest" by simp_all
    have e: "i < ?e" "?e \<le> length ls" "?e \<le> i + MAX_CHUNK_LINES"
      using True by (simp_all add: MAX_CHUNK_LINES_def)
    have r: "ranges_after (startOffset + ?e) ?rest"
      using ih(1) e(3) by (intro ranges_after_weaken[OF ih(1)]) simp
    have el: "ends_le (startOffset + max i (length ls)) ?rest"
    proof (cases "i + MAX_CHUNK_LINES < length ls")
      case T: True
      with ih(2) True show ?thesis by (simp add: max_def)
    next
      case F: False
      then have "?rest = []"
        by (simp add: splitLargeLoop.simps[of _ _ _ _ _ _ _ _ _ "i + MAX_CHUNK_LINES"])
      then show ?thesis by (simp add: ends_le_def)
    qed
    from True r el e show ?thesis
      by (simp add: splitLargeLoop.simps[of _ _ _ _ _ _ _ _ _ i] Let_def ends_le_def max_def)
  qed
qed

lemma chunkBySizeLoop_ranges:
  "ranges_after i (chunkBySizeLoop ct h ls fp rp lg i)
   \<and> ends_le (max i (length ls)) (chunkBySizeLoop ct h ls fp rp lg i)"
proof (induction ct h ls fp rp lg i rule: chunkBySizeLoop.induct)
  case (1 ct h ls fp rp lg i)
  show ?case
  proof (cases "i < length ls")
    case False
    then show ?thesis by (simp add: chunkBySizeLoop.simps[of _ _ _ _ _ _ i] ends_le_def)
  next
    case True
    let ?e = "min (i + MAX_CHUNK_LINES) (length ls)"
    let ?rest = "chunkBySizeLoop ct h ls fp rp lg (i + MAX_CHUNK_LINES)"
    from 1[OF True refl refl refl]
    have ih: "ranges_after (i + MAX_CHUNK_LINES) ?rest"
      "ends_le (max (i + MAX_CHUNK_LINES) (length ls)) ?rest" by simp_all
    have e: "i < ?e" "?e \<le> length ls" "?e \<le> i + MAX_CHUNK_LINES"
      using True by (simp_all add: MAX_CHUNK_LINES_def)
    have r: "ranges_after ?e ?rest"
      using e(3) by (intro ranges_after_weaken[OF ih(1)]) simp
    have el: "ends_le (max i (length ls)) ?rest"
    proof (cases "i + MAX_CHUNK_LINES < length ls")
      case T: True
      with ih(2) True show ?thesis by (simp add: max_def)
    next
      case F: False
      then have "?rest = []"
        by (simp add: chunkBySizeLoop.simps[of _ _ _ _ _ _ "i + MAX_CHUNK_LINES"])
      then show ?thesis by (simp add: ends_le_def)
    qed
    from True r el e show ?thesis
      by (simp add: chunkBySizeLoop.simps[of _ _ _ _ _ _ i] Let_def ends_le_def max_def)
  qed
qed

lemma chunkBySize_ranges:
  "ranges_after 0 (chunkBySize ct h src fp rp lg)
   \<and> ends_le (length (splitLines src)) (chunkBySize ct h src fp rp lg)"
proof (cases "length (splitLines src) \<le> MAX_CHUNK_LINES")
  case True
  have "0 < length (splitLines src)" using splitLines_nonempty by simp
  with True show ?thesis by (simp add: chunkBySize_def ends_le_def Suc_le_eq)
next
  case False
  with chunkBySizeLoop_ranges[of 0 ct h "splitLines src" fp rp lg]
  show ?thesis by (simp add: chunkBySize_def)
qed

lemma boundaryChunks_ranges:
  "boundaries_ok lo (length ls) bs \<Longrightarrow>
   ranges_after lo (boundaryChunks ct h ls fp rp lg nb bs)
   \<and> ends_le (length ls) (boundaryChunks ct h ls fp rp lg nb bs)"
proof (induction bs arbitrary: lo)
  case Nil
  show ?case by (simp add: ends_le_def)
next
  case (Cons b bs)
  let ?start = "line b"
  let ?end = "(case bs of [] \<Rightarrow> length ls - 1 | b' # _ \<Rightarrow> line b' - 1)"
  let ?rest = "boundaryChunks ct h ls fp rp lg nb bs"
  from Cons.prems have lo: "lo \<le> ?start" and lt: "?start < length ls"
    and ok: "boundaries_ok (Suc ?start) (length ls) bs" by simp_all
  have e: "?start < ?end + 1" "?end + 1 \<le> length ls" "boundaries_ok (?end + 1) (length ls) bs"
  proof -
    show "?start < ?end + 1" using ok lt by (cases bs) auto
    show "?end + 1 \<le> length ls" using ok lt by (cases bs) auto
    show "boundaries_ok (?end + 1) (length ls) bs" using ok by (cases bs) auto
  qed
  from Cons.IH[OF e(3)]
  have ih: "ranges_after (?end + 1) ?rest" "ends_le (length ls) ?rest" by simp_all
  have len: "length (slice ls ?start (?end + 1)) = ?end + 1 - ?start"
    using e(2) by (rule length_slice)
  have rlo: "ranges_after lo ?rest"
    using ih(1) lo e(1) by (intro ranges_after_weaken[OF ih(1)]) simp
  have split: "ranges_after lo (splitLargeChunk ct h (slice ls ?start (?end + 1)) ?start fp rp lg (btype b) (bname b) @ ?rest)
      \<and> ends_le (length ls) (splitLargeChunk ct h (slice ls ?start (?end + 1)) ?start fp rp lg (btype b) (bname b) @ ?rest)"
  proof -
    let ?sp = "splitLargeChunk ct h (slice ls ?start (?end + 1)) ?start fp rp lg (btype b) (bname b)"
    from splitLargeLoop_ranges[of ?start 0 ct h "slice ls ?start (?end + 1)" fp rp lg "btype b" "bname b"]
    have sp0: "ranges_after ?start ?sp" "ends_le (?start + length (slice ls ?start (?end + 1))) ?sp"
      by (simp_all add: splitLargeChunk_def)
    have "?start + length (slice ls ?start (?end + 1)) = ?end + 1"
      unfolding len using e(1) by simp
    with sp0 have sp: "ranges_after ?start ?sp" "ends_le (?end + 1) ?sp" by simp_all
    have "ranges_after ?start (?sp @ ?rest)"
      using sp ih(1) e(1) by (intro ranges_after_append[where hi = "?end + 1"]) simp_all
    then have 1: "ranges_after lo (?sp @ ?rest)" using lo by (rule ranges_after_weaken)
    have "ends_le (length ls) ?sp" using sp(2) e(2) by (auto simp: ends_le_def)
    with ih(2) have 2: "ends_le (length ls) (?sp @ ?rest)" by (simp add: ends_le_append)
    from 1 2 show ?thesis ..
  qed
  have single: "lo < ?start + 1 \<and> ?start + 1 \<le> ?end + 1" using lo e(1) by simp
  show ?case
    using rlo ih split single e(2)
    by (simp add: Let_def ends_le_def del: One_nat_def)
qed

lemma chunk_ranges:
  "ranges_after 0 (chunk ct h pats src fp rp lg)
   \<and> ends_le (length (splitLines src)) (chunk ct h pats src fp rp lg)"
proof (cases "length (pats lg) = 0 \<or> length (findBoundaries (splitLines src) (pats lg)) = 0")
  case True
  then show ?thesis using chunkBySize_ranges[of ct h src fp rp lg]
    by (auto simp: chunk_def Let_def)
next
  case False
  let ?ls = "splitLines src"
  let ?bs = "findBoundaries ?ls (pats lg)"
  let ?cs = "boundaryChunks ct h ?ls fp rp lg (length ?bs) ?bs"
  have ok: "boundaries_ok 0 (length ?ls) ?bs"
    using findBoundariesFrom_ok[of 0 ?ls "pats lg"] by (simp add: findBoundaries_def)
  from False obtain b0 bs' where bs: "?bs = b0 # bs'" by (cases ?bs) auto
  with ok have ok0: "boundaries_ok (line b0) (length ?ls) ?bs" and b0: "line b0 < length ?ls"
    by simp_all
  from boundaryChunks_ranges[OF ok0] have r0: "ranges_after (line b0) ?cs" and el: "ends_le (length ?ls) ?cs"
    by simp_all
  from r0 have r: "ranges_after 0 ?cs" by (rule ranges_after_weaken) simp
  have hd: "line (hd ?bs) = line b0" using bs by simp
  from False r r0 el b0 show ?thesis
    by (simp add: chunk_def Let_def hd ends_le_def MIN_CHUNK_LINES_def)
qed

text \<open>
  C4.  For every file text, every language and every pattern table, with \<open>cs\<close> the
  list the chunker returns: each chunk has \<open>1 \<le> startLine \<le> endLine\<close> (and ends within
  the file); in the list sorted by \<open>startLine\<close> each chunk starts and ends before the
  next ones start, so the ranges are strictly increasing and disjoint; and the chunker
  already returns the chunks in that order.  The proof covers the boundary chunks, the
  splitting of long chunks, the preamble chunk and size chunking.
\<close>

theorem chunk_ranges_disjoint_monotone:
  "(\<forall>c\<in>set (chunk ct h pats src fp rp lg).
       1 \<le> startLine c \<and> startLine c \<le> endLine c \<and> endLine c \<le> length (splitLines src))
   \<and> (\<forall>i j. i < j \<and> j < length (sort_key startLine (chunk ct h pats src fp rp lg)) \<longrightarrow>
         startLine (sort_key startLine (chunk ct h pats src fp rp lg) ! i)
           < startLine (sort_key startLine (chunk ct h pats src fp rp lg) ! j)
         \<and> endLine (sort_key startLine (chunk ct h pats src fp rp lg) ! i)
           < startLine (sort_key startLine (chunk ct h pats src fp rp lg) ! j))
   \<and> sort_key startLine (chunk ct h pats src fp rp lg) = chunk ct h pats src fp rp lg"
proof -
  let ?cs = "chunk ct h pats src fp rp lg"
  from chunk_ranges[of ct h pats src fp rp lg]
  have r: "ranges_after 0 ?cs" and e: "ends_le (length (splitLines src)) ?cs" by simp_all
  have s: "sort_key startLine ?cs = ?cs"
    using ranges_after_sorted[OF r] by (rule sort_key_id_if_sorted)
  have 1: "\<forall>c\<in>set ?cs. 1 \<le> startLine c \<and> startLine c \<le> endLine c \<and> endLine c \<le> length (splitLines src)"
    using ranges_after_member[OF r] e by (fastforce simp: ends_le_def)
  have 2: "\<forall>i j. i < j \<and> j < length ?cs \<longrightarrow>
         startLine (?cs ! i) < startLine (?cs ! j) \<and> endLine (?cs ! i) < startLine (?cs ! j)"
  proof (intro allI impI)
    fix i j assume ij: "i < j \<and> j < length ?cs"
    then have "endLine (?cs ! i) < startLine (?cs ! j)" using ranges_after_nth[OF r] by blast
    moreover have "startLine (?cs ! i) \<le> endLine (?cs ! i)"
      using ranges_after_member[OF r, of "?cs ! i"] ij by simp
    ultimately show "startLine (?cs ! i) < startLine (?cs ! j) \<and> endLine (?cs ! i) < startLine (?cs ! j)"
      by simp
  qed
  from 1 2 s show ?thesis by simp
qed

lemma two_defs_lines:
  "splitLines two_defs =
     [''def a'', [], [], [], [], [], [], [], [], [], ''def b'', [], [], [], [], [], [], [], [], []]"
  by (simp add: two_defs_def numeral_eq_Suc)

lemma python_matches:
  "firstMatch pythonPatterns ''def a'' = Some (ct_function, ''a'')"
  "firstMatch pythonPatterns ''def b'' = Some (ct_function, ''b'')"
  "firstMatch pythonPatterns [] = None"
  by (simp_all add: pythonPatterns_def matchMultiline_def pyDefAt_def pyClassAt_def
        keywordThenName_def lit_def spaces1_def word1_def isSpaceChar_def isWordChar_def
        isLineTerminator_def)

lemma two_defs_boundaries:
  "findBoundaries (splitLines two_defs) pythonPatterns =
     [\<lparr>line = 0, btype = ct_function, bname = Some ''a''\<rparr>,
      \<lparr>line = 10, btype = ct_function, bname = Some ''b''\<rparr>]"
  unfolding two_defs_lines findBoundaries_def
  by (simp add: python_matches)

lemma showNat_1: "showNat 1 = ''1''"
  by (simp add: showNat.simps[of 1] showNat.simps[of "Suc 0"] digitChar_def)

lemma showNat_small:
  "showNat 0 = ''0''" "showNat 10 = ''10''" "showNat 11 = ''11''"
  using showNat_1
  by (simp_all add: showNat.simps[of 0] showNat.simps[of 10] showNat.simps[of 11] digitChar_def)

lemma two_defs_cold:
  "chunk ct h pythonOnly two_defs ''/r/m.py'' ''m.py'' ''python'' =
     [\<lparr>chunk_id = h ''/r/m.py:0'', filePath = ''/r/m.py'', relativePath = ''m.py'',
       content = joinLines (''def a'' # replicate 9 []),
       startLine = 1, endLine = 10, chunk_type = ct_function, name = Some ''a'',
       language = ''python'', tokens = ct (joinLines (''def a'' # replicate 9 []))\<rparr>,
      \<lparr>chunk_id = h ''/r/m.py:10'', filePath = ''/r/m.py'', relativePath = ''m.py'',
       content = joinLines (''def b'' # replicate 9 []),
       startLine = 11, endLine = 20, chunk_type = ct_function, name = Some ''b'',
       language = ''python'', tokens = ct (joinLines (''def b'' # replicate 9 []))\<rparr>]"
proof -
  have p: "pythonOnly ''python'' = pythonPatterns" "length pythonPatterns = 2"
    by (simp_all add: pythonOnly_def pythonPatterns_def)
  have r: "replicate 9 ([]::string) = [Nil, [], [], [], [], [], [], [], []]"
    by (simp add: numeral_eq_Suc)
  show ?thesis
    unfolding chunk_def Let_def p two_defs_boundaries r
    by (simp add: two_defs_lines slice_def MIN_CHUNK_LINES_def MAX_CHUNK_LINES_def Let_def showNat_small)
qed

theorem chunk_ranges_disjoint_monotone_witness:
  "chunk wordCount (\<lambda>s. s) pythonOnly two_defs ''/r/m.py'' ''m.py'' ''python'' ! 0
     \<in> set (chunk wordCount (\<lambda>s. s) pythonOnly two_defs ''/r/m.py'' ''m.py'' ''python'')
   \<and> map (\<lambda>c. (startLine c, endLine c)) (chunk wordCount (\<lambda>s. s) pythonOnly two_defs ''/r/m.py'' ''m.py'' ''python'')
        = [(1, 10), (11, 20)]
   \<and> length (splitLines two_defs) = 20
   \<and> (0::nat) < 1
   \<and> 1 < length (sort_key startLine (chunk wordCount (\<lambda>s. s) pythonOnly two_defs ''/r/m.py'' ''m.py'' ''python''))
   \<and> startLine (sort_key startLine (chunk wordCount (\<lambda>s. s) pythonOnly two_defs ''/r/m.py'' ''m.py'' ''python'') ! 0)
       < startLine (sort_key startLine (chunk wordCount (\<lambda>s. s) pythonOnly two_defs ''/r/m.py'' ''m.py'' ''python'') ! 1)
   \<and> endLine (sort_key startLine (chunk wordCount (\<lambda>s. s) pythonOnly two_defs ''/r/m.py'' ''m.py'' ''python'') ! 0)
       < startLine (sort_key startLine (chunk wordCount (\<lambda>s. s) pythonOnly two_defs ''/r/m.py'' ''m.py'' ''python'') ! 1)"
proof -
  let ?cs = "chunk wordCount (\<lambda>s. s) pythonOnly two_defs ''/r/m.py'' ''m.py'' ''python''"
  note t = chunk_ranges_disjoint_monotone[of wordCount "\<lambda>s. s" pythonOnly two_defs "''/r/m.py''" "''m.py''" "''python''"]
  have m: "map (\<lambda>c. (startLine c, endLine c)) ?cs = [(1, 10), (11, 20)]"
    unfolding two_defs_cold by simp
  have len: "length ?cs = 2" unfolding two_defs_cold by simp
  then have mem: "?cs ! 0 \<in> set ?cs" by (intro nth_mem) simp
  have s: "sort_key startLine ?cs = ?cs" using t by blast
  have l20: "length (splitLines two_defs) = 20" by (simp add: two_defs_lines)
  from t len have "startLine (sort_key startLine ?cs ! 0) < startLine (sort_key startLine ?cs ! 1)
      \<and> endLine (sort_key startLine ?cs ! 0) < startLine (sort_key startLine ?cs ! 1)"
    unfolding s by simp
  with m mem l20 len s show ?thesis by simp
qed


section \<open>Cold and hot runs\<close>

lemma cachedChunks_ids:
  "map chunk_id (fst (cachedChunks ct tc f rows)) =
     map (\<lambda>r. sf_path f @ '':'' @ showNat (start_line r)) rows"
proof (induction rows arbitrary: tc)
  case Nil show ?case by simp
next
  case (Cons a rows)
  obtain n tc' where 1: "tokenCache_count ct tc (rec_content a) = (n, tc')" by (cases "tokenCache_count ct tc (rec_content a)")
  obtain cs tc'' where 2: "cachedChunks ct tc' f rows = (cs, tc'')" by (cases "cachedChunks ct tc' f rows")
  from Cons.IH[of tc'] 2 have "map chunk_id cs = map (\<lambda>r. sf_path f @ '':'' @ showNat (start_line r)) rows"
    by simp
  with 1 2 show ?case by simp
qed

lemma cachedChunks_contents:
  "map content (fst (cachedChunks ct tc f rows)) = map rec_content rows"
proof (induction rows arbitrary: tc)
  case Nil show ?case by simp
next
  case (Cons a rows)
  obtain n tc' where 1: "tokenCache_count ct tc (rec_content a) = (n, tc')" by (cases "tokenCache_count ct tc (rec_content a)")
  obtain cs tc'' where 2: "cachedChunks ct tc' f rows = (cs, tc'')" by (cases "cachedChunks ct tc' f rows")
  from Cons.IH[of tc'] 2 have "map content cs = map rec_content rows" by simp
  with 1 2 show ?case by simp
qed

lemma cold_run_eval:
  "fst (cold_run ct h) = chunk ct h pythonOnly two_defs ''/r/m.py'' ''m.py'' ''python''"
  "map (\<lambda>r. (file_path r, rec_content r, start_line r)) (chunk_rows (fst (snd (cold_run ct h)))) =
     [(''/r/m.py'', joinLines (''def a'' # replicate 9 []), 1),
      (''/r/m.py'', joinLines (''def b'' # replicate 9 []), 11)]"
  "\<exists>r. files (fst (snd (cold_run ct h))) ''/r/m.py'' = Some r \<and> fr_mtime r = 1"
  unfolding cold_run_def buildChunks_def
  by (simp_all add: empty_cache_def hasCachedChunks_def getFile_def two_defs_file_def
        chunkFilesParallel_def two_defs_cold setChunks_def setFile_def Let_def)

lemma hot_run_eval:
  "fst (hot_run ct h) =
     fst (cachedChunks ct Map.empty two_defs_file (chunk_rows (fst (snd (cold_run ct h)))))"
proof -
  from cold_run_eval(3)[of ct h] obtain r where
    r: "files (fst (snd (cold_run ct h))) ''/r/m.py'' = Some r" "fr_mtime r = 1" by blast
  have all: "filter (\<lambda>r. file_path r = ''/r/m.py'') (chunk_rows (fst (snd (cold_run ct h))))
               = chunk_rows (fst (snd (cold_run ct h)))"
    using cold_run_eval(2)[of ct h] by (intro filter_True) (auto simp: map_eq_Cons_conv)
  have ne: "chunk_rows (fst (snd (cold_run ct h))) \<noteq> []"
    using cold_run_eval(2)[of ct h] by auto
  show ?thesis
    unfolding hot_run_def buildChunks_def
    using r all ne
    by (simp add: hasCachedChunks_def getFile_def two_defs_file_def getChunks_def split: prod.splits)
qed

text \<open>
  C3 at a file of two Python functions.  The chunks of the hot run have the contents of
  the chunks of the cold run, but not their ids: the chunker gives a chunk the hash of
  \<open>path:start\<close> with the 0-based start index, the loader of cached rows gives it the
  plain text \<open>path:start_line\<close> with the 1-based line number.
\<close>

theorem cache_hot_ids_differ:
  "map content (fst (hot_run ct h)) = map content (fst (cold_run ct h))
   \<and> map chunk_id (fst (cold_run ct h)) = [h ''/r/m.py:0'', h ''/r/m.py:10'']
   \<and> map chunk_id (fst (hot_run ct h)) = [''/r/m.py:1'', ''/r/m.py:11'']"
proof -
  let ?rows = "chunk_rows (fst (snd (cold_run ct h)))"
  have rc: "map rec_content ?rows = [joinLines (''def a'' # replicate 9 []), joinLines (''def b'' # replicate 9 [])]"
    and rs: "map start_line ?rows = [1, 11]"
    using cold_run_eval(2)[of ct h] by (auto simp: map_eq_Cons_conv)
  have 1: "map content (fst (hot_run ct h)) = map content (fst (cold_run ct h))"
    unfolding hot_run_eval cachedChunks_contents rc cold_run_eval(1) two_defs_cold by simp
  have 2: "map chunk_id (fst (cold_run ct h)) = [h ''/r/m.py:0'', h ''/r/m.py:10'']"
    unfolding cold_run_eval(1) two_defs_cold by simp
  have "map chunk_id (fst (hot_run ct h)) = map (\<lambda>n. ''/r/m.py'' @ '':'' @ showNat n) (map start_line ?rows)"
    unfolding hot_run_eval cachedChunks_ids by (simp add: two_defs_file_def)
  then have 3: "map chunk_id (fst (hot_run ct h)) = [''/r/m.py:1'', ''/r/m.py:11'']"
    unfolding rs using showNat_1 by (simp add: showNat_small)
  from 1 2 3 show ?thesis by simp
qed


section \<open>Properties of the keyword ranker\<close>

lemmas tokenize_simps =
  tokenize_def splitNonWord_def toLowerCase_def toLowerChar_def isUpperCase_def
  replaceSeparators_def isWordChar_def isLowerAZ_def isUpperAZ_def STOPWORDS_def stem_def
  STEM_RULES_def endsWith_def replaceSuffix_def Let_def

lemma tokenize_login: "tokenize ''login'' True True = [''login'']"
  by (simp add: tokenize_simps)

lemma tokenize_paths:
  "tokenize ''login.ts'' False True = [''login'', ''ts'']"
  "tokenize ''util.ts'' False True = [''util'', ''ts'']"
  "tokenize ''x'' False True = []" "tokenize ''y'' False True = []"
  by (simp_all add: tokenize_simps)

lemma important_login: "extractImportantTerms ''login'' = []"
  by (simp add: extractImportantTerms_def isWordChar_def)

lemma keywordScore_login:
  "keywordScore login_chunk [''login''] [] = 12"
  unfolding keywordScore_def login_chunk_def
  by (simp add: tokenize_paths tokenScore_def tokenMatches_def boostMultiplier_def
        PATH_WEIGHT_def NAME_WEIGHT_def CONTENT_WEIGHT_def Let_def)

lemma keywordScore_util:
  "keywordScore util_chunk [''login''] [] = 0"
  unfolding keywordScore_def util_chunk_def
  by (simp add: tokenize_paths tokenScore_def tokenMatches_def boostMultiplier_def
        PATH_WEIGHT_def NAME_WEIGHT_def CONTENT_WEIGHT_def Let_def)

lemma keywordRank_two:
  "keywordRank [util_chunk, login_chunk] ''login'' = [withScore login_chunk 12, withScore util_chunk 0]"
  unfolding keywordRank_def tokenize_login important_login Let_def
  by (simp add: keywordScore_login keywordScore_util sortByScoreDesc_def withScore_def)

lemma tokenScore_nonneg:
  assumes "0 \<le> d"
  shows "0 \<le> tokenScore cts pts nts d imp qt"
proof -
  have b: "0 < boostMultiplier imp qt" by (simp add: boostMultiplier_def)
  have c: "0 \<le> (if length (filter (tokenMatches qt) cts) > 0
                 then (1 + ln (real (length (filter (tokenMatches qt) cts)))) * (1 + d) else 0)"
  proof (cases "length (filter (tokenMatches qt) cts) > 0")
    case True
    then have "Suc 0 \<le> length (filter (tokenMatches qt) cts)" by (rule Suc_leI)
    then have "real (Suc 0) \<le> real (length (filter (tokenMatches qt) cts))" by (simp only: of_nat_le_iff)
    then have "1 \<le> real (length (filter (tokenMatches qt) cts))" by simp
    then have "0 \<le> ln (real (length (filter (tokenMatches qt) cts)))" by (rule ln_ge_zero)
    with assms True show ?thesis by simp
  next
    case False then show ?thesis by simp
  qed
  show ?thesis
    unfolding tokenScore_def Let_def CONTENT_WEIGHT_def PATH_WEIGHT_def NAME_WEIGHT_def
    using b c by (intro add_nonneg_nonneg mult_nonneg_nonneg) auto
qed

lemma foldl_add_nonneg:
  "(0::real) \<le> a \<Longrightarrow> (\<And>x. 0 \<le> f x) \<Longrightarrow> 0 \<le> foldl (\<lambda>s x. s + f x) a xs"
  by (induction xs arbitrary: a) simp_all

lemma keywordScore_nonneg: "0 \<le> keywordScore c qts imp"
proof -
  let ?cts = "tokenize (content c) False True"
  let ?d = "min 1.0 (200 / real (max (length ?cts) 1))"
  have d: "0 \<le> ?d" by simp
  let ?pts = "tokenize (relativePath c) False True"
  let ?nts = "(case name c of None \<Rightarrow> [] | Some n \<Rightarrow> if n = [] then [] else tokenize n False True)"
  have s0: "0 \<le> foldl (\<lambda>s qt. s + tokenScore ?cts ?pts ?nts ?d imp qt) 0 qts"
    using tokenScore_nonneg[OF d] by (intro foldl_add_nonneg) simp_all
  show ?thesis
    unfolding keywordScore_def Let_def
    using s0 by (auto intro!: mult_nonneg_nonneg)
qed

lemma score_withScore [simp]: "score (withScore c s) = s"
  by (simp add: withScore_def)

lemma chunk_id_withScore [simp]: "chunk_id (withScore c s) = chunk_id c"
  by (simp add: withScore_def)

lemma set_sortByScoreDesc [simp]: "set (sortByScoreDesc xs) = set xs"
  by (simp add: sortByScoreDesc_def)

lemma length_sortByScoreDesc [simp]: "length (sortByScoreDesc xs) = length xs"
  by (simp add: sortByScoreDesc_def)

lemma keywordRank_nonneg: "sc \<in> set (keywordRank chunks query) \<Longrightarrow> 0 \<le> score sc"
  by (auto simp: keywordRank_def Let_def keywordScore_nonneg split: if_splits)

lemma length_keywordRank: "length (keywordRank chunks query) = length chunks"
  by (simp add: keywordRank_def Let_def)

lemma fold_min_le: "fold min xs (a::real) \<le> a \<and> (\<forall>x\<in>set xs. fold min xs a \<le> x)"
proof (induction xs arbitrary: a)
  case Nil show ?case by simp
next
  case (Cons y ys)
  from Cons[of "min y a"] show ?case by (auto simp: min_def split: if_splits)
qed

lemma minOf_le: "x \<in> set xs \<Longrightarrow> minOf xs \<le> x"
  using fold_min_le[of "tl xs" "hd xs"] by (cases xs) (auto simp: minOf_def)

lemma fold_max_ge: "a \<le> fold max xs (a::real) \<and> (\<forall>x\<in>set xs. x \<le> fold max xs a)"
proof (induction xs arbitrary: a)
  case Nil show ?case by simp
next
  case (Cons y ys)
  from Cons[of "max y a"] show ?case by (auto simp: max_def split: if_splits)
qed

lemma maxOf_ge: "x \<in> set xs \<Longrightarrow> x \<le> maxOf xs"
  using fold_max_ge[of "hd xs" "tl xs"] by (cases xs) (auto simp: maxOf_def)

lemma normalize_nonneg: "k \<in> set (normalize xs) \<Longrightarrow> 0 \<le> k"
proof -
  assume k: "k \<in> set (normalize xs)"
  show ?thesis
  proof (cases "xs = [] \<or> maxOf xs - minOf xs = 0")
    case True
    with k show ?thesis by (auto simp: normalize_def Let_def split: if_splits)
  next
    case False
    with k obtain x where x: "x \<in> set xs" "k = (x - minOf xs) / (maxOf xs - minOf xs)"
      by (auto simp: normalize_def Let_def)
    have "minOf xs \<le> x" "x \<le> maxOf xs" using x(1) minOf_le maxOf_ge by auto
    then show ?thesis unfolding x(2) by (intro divide_nonneg_nonneg) simp_all
  qed
qed

lemma fold_min_max_const:
  "\<forall>y\<in>set ys. y = b \<Longrightarrow> fold min ys (b::real) = b \<and> fold max ys b = b"
  by (induction ys) auto

lemma normalize_equal:
  assumes ne: "xs \<noteq> []" and eq: "\<forall>x\<in>set xs. x = a"
  shows "normalize xs = map (\<lambda>s. 0.5) xs"
proof -
  from ne eq have "hd xs = a" "\<forall>y\<in>set (tl xs). y = a" by (auto dest: list.set_sel(2))
  with fold_min_max_const[of "tl xs" a] have "minOf xs = a" "maxOf xs = a"
    by (simp_all add: minOf_def maxOf_def)
  with ne show ?thesis by (simp add: normalize_def Let_def)
qed

lemma fold_map_upd_nonneg:
  "(\<forall>k v. m k = Some v \<longrightarrow> (0::real) \<le> v) \<Longrightarrow> (\<forall>e\<in>set es. 0 \<le> score e) \<Longrightarrow>
   fold (\<lambda>scored m. m(chunk_id scored \<mapsto> score scored)) es m k = Some v \<Longrightarrow> 0 \<le> v"
proof (induction es arbitrary: m)
  case Nil then show ?case by simp
next
  case (Cons e es)
  have "\<forall>k v. (m(chunk_id e \<mapsto> score e)) k = Some v \<longrightarrow> 0 \<le> v"
    using Cons.prems(1,2) by auto
  from Cons.IH[OF this] Cons.prems show ?case by simp
qed

lemma embeddingScoreMap_nonneg:
  "\<forall>e\<in>set es. 0 \<le> score e \<Longrightarrow> embeddingScoreMap es k = Some v \<Longrightarrow> 0 \<le> v"
  unfolding embeddingScoreMap_def using fold_map_upd_nonneg[of Map.empty es k v] by simp

lemma getImportance_nonneg:
  "\<forall>p v. importanceScores env p = Some v \<longrightarrow> 0 \<le> v \<Longrightarrow> 0 \<le> getImportance env c"
  by (auto simp: getImportance_def Let_def MARKDOWN_PENALTY_def split: option.splits)

lemma combineScores_nonneg:
  assumes imp: "\<forall>p v. importanceScores env p = Some v \<longrightarrow> 0 \<le> v"
    and m: "\<forall>k v. scoreMap k = Some v \<longrightarrow> 0 \<le> v"
    and n: "\<forall>k\<in>set nk. 0 \<le> k"
    and sc: "sc \<in> set (combineScores env scoreMap chunks nk)"
  shows "0 \<le> score sc"
proof -
  from sc obtain c k where ck: "(c, k) \<in> set (zip chunks nk)"
    and s: "score sc = k * KEYWORD_WEIGHT
              + (case scoreMap (chunk_id c) of None \<Rightarrow> 0 | Some s \<Rightarrow> s) * EMBEDDING_WEIGHT
              + getImportance env c * IMPORTANCE_WEIGHT"
    by (auto simp: combineScores_def Let_def)
  from ck have "k \<in> set nk" by (rule set_zip_rightD)
  with n have k: "0 \<le> k" by simp
  have e: "0 \<le> (case scoreMap (chunk_id c) of None \<Rightarrow> 0 | Some s \<Rightarrow> s)"
    using m by (auto split: option.splits)
  have i: "0 \<le> getImportance env c" using imp by (rule getImportance_nonneg)
  show ?thesis unfolding s KEYWORD_WEIGHT_def EMBEDDING_WEIGHT_def IMPORTANCE_WEIGHT_def
    using k e i by (intro add_nonneg_nonneg mult_nonneg_nonneg) simp_all
qed

lemma keywordRank_raw:
  "keywordRank chunks query =
     (if length (tokenize query True True) = 0 then map (\<lambda>c. withScore c (rawKeywordScore c query)) chunks
      else sortByScoreDesc (map (\<lambda>c. withScore c (rawKeywordScore c query)) chunks))"
  by (simp add: keywordRank_def rawKeywordScore_def Let_def)

lemma keywordRank_sorted: "sorted (map (\<lambda>c. - score c) (keywordRank chunks query))"
proof (cases "length (tokenize query True True) = 0")
  case True
  then have "map (\<lambda>c. - score c) (keywordRank chunks query) = map (\<lambda>c. 0) chunks"
    by (simp add: keywordRank_raw rawKeywordScore_def o_def)
  moreover have "sorted (map (\<lambda>c. 0::real) chunks)" by (induction chunks) simp_all
  ultimately show ?thesis by simp
next
  case False
  then show ?thesis by (simp add: keywordRank_raw sortByScoreDesc_def)
qed

lemma keywordRank_stable:
  "filter (\<lambda>c. score c = s) (keywordRank chunks query)
     = filter (\<lambda>c. score c = s) (map (\<lambda>c. withScore c (rawKeywordScore c query)) chunks)"
proof (cases "length (tokenize query True True) = 0")
  case True
  then show ?thesis by (simp add: keywordRank_raw)
next
  case False
  have "filter (\<lambda>c. - score c = - s) (sort_key (\<lambda>c. - score c) (map (\<lambda>c. withScore c (rawKeywordScore c query)) chunks))
          = filter (\<lambda>c. - score c = - s) (map (\<lambda>c. withScore c (rawKeywordScore c query)) chunks)"
    by (rule sort_key_stable)
  with False show ?thesis by (simp add: keywordRank_raw sortByScoreDesc_def)
qed

text \<open>
  C9.  With \<open>fast = true\<close> the ranker returns the keyword ranking, a function of the
  chunk list and the query alone: two rankers that both have \<open>fast\<close> set give the same
  result on the same chunks and query, whatever their importance maps, text generators
  and embedders are.  That result holds the input chunks with their keyword scores, in
  descending order of score, and chunks of equal score keep the order of the input.
\<close>

theorem fast_rank_deterministic:
  "(fast env \<and> fast env' \<longrightarrow> hybridRank env chunks query = hybridRank env' chunks query)
   \<and> (fast env \<longrightarrow> hybridRank env chunks query = Inr (keywordRank chunks query))
   \<and> sorted (map (\<lambda>c. - score c) (keywordRank chunks query))
   \<and> length (keywordRank chunks query) = length chunks
   \<and> (\<forall>s. filter (\<lambda>c. score c = s) (keywordRank chunks query)
          = filter (\<lambda>c. score c = s) (map (\<lambda>c. withScore c (rawKeywordScore c query)) chunks))"
  using keywordRank_sorted[of chunks query] keywordRank_stable[of _ chunks query]
    length_keywordRank[of chunks query]
  by (simp add: hybridRank_def)

theorem fast_rank_deterministic_witness:
  "fast fast_env \<and> fast fast_env'
   \<and> hybridRank fast_env [util_chunk, login_chunk] ''login''
       = hybridRank fast_env' [util_chunk, login_chunk] ''login''
   \<and> hybridRank fast_env [util_chunk, login_chunk] ''login''
       = Inr [withScore login_chunk 12, withScore util_chunk 0]"
proof -
  have f: "fast fast_env" "fast fast_env'" by (simp_all add: fast_env_def fast_env'_def)
  from fast_rank_deterministic[of fast_env fast_env' "[util_chunk, login_chunk]" "''login''"] f
  have "hybridRank fast_env [util_chunk, login_chunk] ''login''
          = hybridRank fast_env' [util_chunk, login_chunk] ''login''"
    and "hybridRank fast_env [util_chunk, login_chunk] ''login''
          = Inr (keywordRank [util_chunk, login_chunk] ''login'')" by blast+
  with f show ?thesis by (simp only: keywordRank_two)
qed

section \<open>Properties of the hybrid ranker\<close>

lemma cosine_zero: "cosineSimilarity [0] [0] = Inr 0"
  by (simp add: cosineSimilarity_def)

lemma cosine_opposite: "cosineSimilarity [-1] [1] = Inr (-1)"
  by (simp add: cosineSimilarity_def)

lemma embeddingRank_zero:
  "embeddingRank (\<lambda>t. [0]) [util_chunk, login_chunk] ''login''
     = Inr [withScore util_chunk 0, withScore login_chunk 0]"
  by (simp add: embeddingRank_def cosine_zero sortByScoreDesc_def)

lemma normalize_two: "normalize [12, 0] = [1, 0]"
  by (simp add: normalize_def minOf_def maxOf_def)

lemma hybridRank_zero:
  "hybridRank zero_env [util_chunk, login_chunk] ''login''
     = Inr [withScore util_chunk 0.5, withScore login_chunk 0.1]"
proof -
  have ids: "chunk_id util_chunk = ''u''" "chunk_id login_chunk = ''l''"
    "language util_chunk = ''typescript''" "language login_chunk = ''typescript''"
    by (simp_all add: util_chunk_def login_chunk_def)
  have m: "embeddingScoreMap [withScore util_chunk 0, withScore login_chunk 0] = [''u'' \<mapsto> 0, ''l'' \<mapsto> 0]"
    by (simp add: embeddingScoreMap_def ids)
  have c: "combineScores zero_env [''u'' \<mapsto> 0, ''l'' \<mapsto> 0] [util_chunk, login_chunk] [1, 0]
             = [withScore util_chunk 0.5, withScore login_chunk 0.1]"
    by (simp add: combineScores_def getImportance_def zero_env_def ids
          KEYWORD_WEIGHT_def EMBEDDING_WEIGHT_def IMPORTANCE_WEIGHT_def Let_def)
  have s: "sortByScoreDesc [withScore util_chunk 0.5, withScore login_chunk 0.1]
             = [withScore util_chunk 0.5, withScore login_chunk 0.1]"
    by (simp add: sortByScoreDesc_def)
  have e: "embeddingRank (embedder zero_env) [util_chunk, login_chunk] (generateHyDE zero_env ''login'')
             = Inr [withScore util_chunk 0, withScore login_chunk 0]"
    using embeddingRank_zero by (simp add: zero_env_def)
  have f: "\<not> fast zero_env" by (simp add: zero_env_def)
  have k: "map score [withScore login_chunk 12, withScore util_chunk 0] = [12, 0]" by simp
  have "hybridRank zero_env [util_chunk, login_chunk] ''login''
          = Inr (sortByScoreDesc (combineScores zero_env
                   (embeddingScoreMap [withScore util_chunk 0, withScore login_chunk 0])
                   [util_chunk, login_chunk]
                   (normalize (map score [withScore login_chunk 12, withScore util_chunk 0]))))"
    unfolding hybridRank_def Let_def e keywordRank_two using f by (simp only: if_False sum.case)
  then show ?thesis by (simp only: k normalize_two m c s)
qed

lemma rawKeywordScore_two:
  "rawKeywordScore util_chunk ''login'' = 0" "rawKeywordScore login_chunk ''login'' = 12"
  by (simp_all add: rawKeywordScore_def tokenize_login important_login keywordScore_util keywordScore_login)

text \<open>
  C2 at two chunks, of which only the second matches the query \<open>login\<close> (raw keyword
  scores 0 and 12), with an embedder that returns the zero vector.  The keyword ranker
  returns its result sorted by score, and the hybrid ranker reads that sorted list by the
  index of the unsorted input: the first chunk receives the normalized score 1 of the
  second, and the second receives 0.  The fusion of the specification gives 0.1 and 0.5;
  the code gives 0.5 and 0.1.
\<close>

theorem hybrid_keyword_misattributed:
  "keywordRank [util_chunk, login_chunk] ''login'' = [withScore login_chunk 12, withScore util_chunk 0]
   \<and> hybridRank zero_env [util_chunk, login_chunk] ''login''
       = Inr [withScore util_chunk 0.5, withScore login_chunk 0.1]
   \<and> fusion_spec zero_env [util_chunk, login_chunk] ''login'' util_chunk 0 = 0.1
   \<and> fusion_spec zero_env [util_chunk, login_chunk] ''login'' login_chunk 0 = 0.5"
proof -
  have l: "language util_chunk = ''typescript''" "language login_chunk = ''typescript''"
    by (simp_all add: util_chunk_def login_chunk_def)
  have "fusion_spec zero_env [util_chunk, login_chunk] ''login'' util_chunk 0 = 0.1"
    "fusion_spec zero_env [util_chunk, login_chunk] ''login'' login_chunk 0 = 0.5"
    by (simp_all add: fusion_spec_def rawKeywordScore_two minOf_def maxOf_def getImportance_def
          zero_env_def l)
  with keywordRank_two hybridRank_zero show ?thesis by simp
qed

lemma hybridRank_nonneg:
  assumes f: "\<not> fast env"
    and imp: "\<forall>p v. importanceScores env p = Some v \<longrightarrow> 0 \<le> v"
    and er: "embeddingRank (embedder env) chunks (generateHyDE env query) = Inr es"
    and es: "\<forall>e\<in>set es. 0 \<le> score e"
  shows "\<exists>r. hybridRank env chunks query = Inr r \<and> (\<forall>sc\<in>set r. 0 \<le> score sc)"
proof -
  let ?nk = "normalize (map score (keywordRank chunks query))"
  let ?r = "sortByScoreDesc (combineScores env (embeddingScoreMap es) chunks ?nk)"
  have h: "hybridRank env chunks query = Inr ?r"
    unfolding hybridRank_def Let_def er using f by simp
  have m: "\<forall>k v. embeddingScoreMap es k = Some v \<longrightarrow> 0 \<le> v"
    using embeddingScoreMap_nonneg[OF es] by blast
  have n: "\<forall>k\<in>set ?nk. 0 \<le> k" using normalize_nonneg by blast
  have "\<forall>sc\<in>set ?r. 0 \<le> score sc"
    using combineScores_nonneg[OF imp m n] by simp
  with h show ?thesis by blast
qed

lemma enrich_login: "enrichWithContext login_chunk \<noteq> ''login''"
  by (simp add: enrichWithContext_def login_chunk_def)

lemma keywordRank_one: "keywordRank [login_chunk] ''login'' = [withScore login_chunk 12]"
  unfolding keywordRank_def tokenize_login important_login Let_def
  by (simp add: keywordScore_login sortByScoreDesc_def)

lemma hybridRank_opposite:
  "hybridRank opposite_env [login_chunk] ''login'' = Inr [withScore login_chunk (- 0.1)]"
proof -
  have ids: "chunk_id login_chunk = ''l''" "language login_chunk = ''typescript''"
    by (simp_all add: login_chunk_def)
  have e: "embeddingRank (embedder opposite_env) [login_chunk] (generateHyDE opposite_env ''login'')
             = Inr [withScore login_chunk (-1)]"
    by (simp add: opposite_env_def embeddingRank_def enrich_login cosine_opposite sortByScoreDesc_def)
  have m: "embeddingScoreMap [withScore login_chunk (-1)] = [''l'' \<mapsto> -1]"
    by (simp add: embeddingScoreMap_def ids)
  have n: "normalize (map score [withScore login_chunk 12]) = [0.5]"
    by (simp add: normalize_def minOf_def maxOf_def)
  have c: "combineScores opposite_env [''l'' \<mapsto> -1] [login_chunk] [0.5] = [withScore login_chunk (- 0.1)]"
    by (simp add: combineScores_def getImportance_def opposite_env_def ids
          KEYWORD_WEIGHT_def EMBEDDING_WEIGHT_def IMPORTANCE_WEIGHT_def Let_def)
  have s: "sortByScoreDesc [withScore login_chunk (- 0.1)] = [withScore login_chunk (- 0.1)]"
    by (simp add: sortByScoreDesc_def)
  have f: "\<not> fast opposite_env" by (simp add: opposite_env_def)
  have "hybridRank opposite_env [login_chunk] ''login''
          = Inr (sortByScoreDesc (combineScores opposite_env
                   (embeddingScoreMap [withScore login_chunk (-1)]) [login_chunk]
                   (normalize (map score [withScore login_chunk 12]))))"
    unfolding hybridRank_def Let_def e keywordRank_one using f by (simp only: if_False sum.case)
  then show ?thesis by (simp only: n m c s)
qed

text \<open>
  C10 at the hybrid ranker (\<open>fast = false\<close>) with one chunk, \<open>login.ts\<close>, the query
  \<open>login\<close>, an empty importance map and an embedder that returns \<open>[-1]\<close> for the query
  text and \<open>[1]\<close> for the text of the chunk.  The claim says that every scored chunk has a
  score of at least 0 for every vector the embedder may return, and the source documents
  the field as \<open>Relevance score (0-1)\<close>.  The keyword score is normalized to \<open>0.5\<close> and the
  importance defaults to \<open>0.5\<close>, but the cosine similarity, \<open>-1\<close> here, enters the fusion as
  it is: the ranker returns the chunk with the score
  \<open>0.4 \<sdot> 0.5 + 0.4 \<sdot> (-1) + 0.2 \<sdot> 0.5 = -0.1\<close>.
\<close>

theorem hybrid_score_negative:
  "hybridRank opposite_env [login_chunk] ''login'' = Inr [withScore login_chunk (- 0.1)]
   \<and> score (withScore login_chunk (- 0.1)) < 0"
  using hybridRank_opposite by simp

section \<open>Important terms\<close>

lemma tokenize_execute:
  "tokenize ''explain .execute method'' True True = [''execut'', ''method'']"
  by (simp add: tokenize_simps)

lemma important_execute:
  "extractImportantTerms ''explain .execute method'' = [''execute'']"
  by (simp add: extractImportantTerms_def isWordChar_def toLowerCase_def toLowerChar_def isUpperCase_def)

lemma tokenize_execute_chunk:
  "tokenize ''runner.ts'' False True = [''runn'', ''ts'']"
  "tokenize ''execute'' False True = [''execut'']"
  by (simp_all add: tokenize_simps)

text \<open>
  C5 at the query \<open>explain .execute method\<close> of the specification.  The important term
  is stored unstemmed, \<open>execute\<close>; the query token derived from it is the stem \<open>execut\<close>,
  which is not in the set, so the token is scored with boost 1: a chunk named
  \<open>execute\<close> scores \<open>(3 + 20) \<sdot> 1 = 23\<close>, not \<open>(3 + 20) \<sdot> 5\<close>.
\<close>

theorem important_term_not_boosted:
  "tokenize ''explain .execute method'' True True = [''execut'', ''method'']
   \<and> extractImportantTerms ''explain .execute method'' = [''execute'']
   \<and> boostMultiplier (extractImportantTerms ''explain .execute method'') ''execut'' = 1
   \<and> keywordScore execute_chunk (tokenize ''explain .execute method'' True True)
        (extractImportantTerms ''explain .execute method'') = 23"
proof -
  have b: "boostMultiplier [''execute''] ''execut'' = 1" by (simp add: boostMultiplier_def)
  have "keywordScore execute_chunk [''execut'', ''method''] [''execute''] = 23"
    unfolding keywordScore_def execute_chunk_def
    by (simp add: tokenize_paths tokenize_execute_chunk tokenScore_def tokenMatches_def
          boostMultiplier_def PATH_WEIGHT_def NAME_WEIGHT_def CONTENT_WEIGHT_def Let_def)
  with b show ?thesis by (simp only: tokenize_execute important_execute)
qed


section \<open>Properties of the selector\<close>

lemma totalCost_append: "totalCost (xs @ ys) = totalCost xs + totalCost ys"
  by (simp add: totalCost_def)

lemma selectLoop_Cons_accept:
  "cur + chunkCost c \<le> eff \<Longrightarrow>
   selectLoop eff (c # cs) sel cur =
     (if real (cur + chunkCost c) \<ge> real eff * 0.98 then sel @ [c]
      else selectLoop eff cs (sel @ [c]) (cur + chunkCost c))"
  by (simp add: Let_def)

lemma selectLoop_Cons_reject:
  "\<not> cur + chunkCost c \<le> eff \<Longrightarrow>
   selectLoop eff (c # cs) sel cur =
     (if real cur \<ge> real eff * 0.98 then sel else selectLoop eff cs sel cur)"
  by (simp add: Let_def)

lemma selectLoop_subseq: "\<exists>ys. selectLoop eff cs sel cur = sel @ ys \<and> subseq ys cs"
proof (induction cs arbitrary: sel cur)
  case Nil show ?case by simp
next
  case (Cons c cs)
  show ?case
  proof (cases "cur + chunkCost c \<le> eff")
    case True
    from Cons[of "sel @ [c]" "cur + chunkCost c"] obtain ys where
      ys: "selectLoop eff cs (sel @ [c]) (cur + chunkCost c) = (sel @ [c]) @ ys" "subseq ys cs" by blast
    show ?thesis
    proof (cases "real (cur + chunkCost c) \<ge> real eff * 0.98")
      case True
      with \<open>cur + chunkCost c \<le> eff\<close> have "selectLoop eff (c # cs) sel cur = sel @ [c]"
        by (simp add: selectLoop_Cons_accept del: selectLoop.simps(2))
      moreover have "subseq [c] (c # cs)" by simp
      ultimately show ?thesis by blast
    next
      case False
      with \<open>cur + chunkCost c \<le> eff\<close> ys(1)
      have "selectLoop eff (c # cs) sel cur = sel @ (c # ys)"
        by (simp add: selectLoop_Cons_accept del: selectLoop.simps(2))
      moreover from ys(2) have "subseq (c # ys) (c # cs)" by simp
      ultimately show ?thesis by blast
    qed
  next
    case False
    from Cons[of sel cur] obtain ys where
      ys: "selectLoop eff cs sel cur = sel @ ys" "subseq ys cs" by blast
    show ?thesis
    proof (cases "real cur \<ge> real eff * 0.98")
      case True
      with False have "selectLoop eff (c # cs) sel cur = sel @ []"
        by (simp add: selectLoop_Cons_reject del: selectLoop.simps(2))
      moreover have "subseq [] (c # cs)" by simp
      ultimately show ?thesis by blast
    next
      case F2: False
      with False ys(1) have "selectLoop eff (c # cs) sel cur = sel @ ys"
        by (simp add: selectLoop_Cons_reject del: selectLoop.simps(2))
      moreover from ys(2) have "subseq ys (c # cs)" by (rule list_emb_Cons)
      ultimately show ?thesis by blast
    qed
  qed
qed

lemma selectLoop_bound:
  "cur = totalCost sel \<Longrightarrow> cur \<le> eff \<Longrightarrow> totalCost (selectLoop eff cs sel cur) \<le> eff"
proof (induction cs arbitrary: sel cur)
  case Nil then show ?case by simp
next
  case (Cons c cs)
  show ?case
  proof (cases "cur + chunkCost c \<le> eff")
    case True
    have eq: "cur + chunkCost c = totalCost (sel @ [c])"
      using Cons.prems(1) by (simp add: totalCost_def)
    from Cons.IH[OF eq] True have "totalCost (selectLoop eff cs (sel @ [c]) (cur + chunkCost c)) \<le> eff"
      by simp
    moreover have "totalCost (sel @ [c]) \<le> eff" using eq True by simp
    ultimately show ?thesis using True by (simp add: selectLoop_Cons_accept del: selectLoop.simps(2))
  next
    case False
    from Cons.IH[OF Cons.prems] Cons.prems False show ?thesis
      by (simp add: selectLoop_Cons_reject del: selectLoop.simps(2))
  qed
qed

lemma accepted_ok_Nil: "accepted_ok eff []"
  by (simp add: accepted_ok_def)

lemma accepted_ok_snoc:
  assumes "accepted_ok eff sel" "totalCost sel + chunkCost c \<le> eff"
    "real (totalCost sel) < real eff * 0.98"
  shows "accepted_ok eff (sel @ [c])"
  unfolding accepted_ok_def
proof (intro allI impI)
  fix pre d post assume eq: "sel @ [c] = pre @ d # post"
  show "totalCost pre + chunkCost d \<le> eff \<and> real (totalCost pre) < real eff * 0.98"
  proof (cases post rule: rev_cases)
    case Nil
    with eq have "pre = sel" "d = c" by auto
    with assms show ?thesis by simp
  next
    case (snoc post' z)
    with eq have "sel = pre @ d # post'" by auto
    with assms(1) show ?thesis unfolding accepted_ok_def by blast
  qed
qed

lemma selectLoop_accepted:
  "cur = totalCost sel \<Longrightarrow> accepted_ok eff sel \<Longrightarrow>
   (sel = [] \<or> real cur < real eff * 0.98) \<Longrightarrow>
   accepted_ok eff (selectLoop eff cs sel cur)"
proof (induction cs arbitrary: sel cur)
  case Nil then show ?case by simp
next
  case (Cons c cs)
  show ?case
  proof (cases "cur + chunkCost c \<le> eff")
    case True
    have eq: "cur + chunkCost c = totalCost (sel @ [c])"
      using Cons.prems(1) by (simp add: totalCost_def)
    have lt: "real (totalCost sel) < real eff * 0.98"
    proof (cases "sel = []")
      case True
      have "0 < chunkCost c" by (simp add: chunkCost_def)
      with \<open>cur + chunkCost c \<le> eff\<close> have "0 < eff" by simp
      with True show ?thesis by (simp add: totalCost_def)
    next
      case False with Cons.prems show ?thesis by simp
    qed
    have ok: "accepted_ok eff (sel @ [c])"
      using accepted_ok_snoc[OF Cons.prems(2) _ lt] True Cons.prems(1) by simp
    show ?thesis
    proof (cases "real (cur + chunkCost c) \<ge> real eff * 0.98")
      case T2: True
      with True ok show ?thesis by (simp add: selectLoop_Cons_accept del: selectLoop.simps(2))
    next
      case F2: False
      then have "sel @ [c] = [] \<or> real (cur + chunkCost c) < real eff * 0.98" by simp
      from Cons.IH[OF eq ok this] True F2 show ?thesis
        by (simp add: selectLoop_Cons_accept del: selectLoop.simps(2))
    qed
  next
    case False
    show ?thesis
    proof (cases "real cur \<ge> real eff * 0.98")
      case T2: True
      with False Cons.prems(2) show ?thesis by (simp add: selectLoop_Cons_reject del: selectLoop.simps(2))
    next
      case F2: False
      then have "sel = [] \<or> real cur < real eff * 0.98" by simp
      from Cons.IH[OF Cons.prems(1,2) this] False F2 show ?thesis
        by (simp add: selectLoop_Cons_reject del: selectLoop.simps(2))
    qed
  qed
qed

text \<open>Stopping: once the total after a non-empty processed prefix reaches 98 percent,
  nothing after is looked at.\<close>

lemma selectLoop_stop:
  "cur = totalCost sel \<Longrightarrow> xs \<noteq> [] \<Longrightarrow>
   real (totalCost (selectLoop eff xs sel cur)) \<ge> real eff * 0.98 \<Longrightarrow>
   selectLoop eff (xs @ ys) sel cur = selectLoop eff xs sel cur"
proof (induction xs arbitrary: sel cur)
  case Nil then show ?case by simp
next
  case (Cons c cs)
  show ?case
  proof (cases "cur + chunkCost c \<le> eff")
    case True
    have eq: "cur + chunkCost c = totalCost (sel @ [c])"
      using Cons.prems(1) by (simp add: totalCost_def)
    show ?thesis
    proof (cases "real (cur + chunkCost c) \<ge> real eff * 0.98")
      case T2: True
      with True show ?thesis by (simp add: selectLoop_Cons_accept del: selectLoop.simps(2))
    next
      case F2: False
      show ?thesis
      proof (cases "cs = []")
        case T3: True
        with True F2 Cons.prems(3) eq show ?thesis
          by (simp add: selectLoop_Cons_accept del: selectLoop.simps(2))
      next
        case F3: False
        from Cons.prems(3) True F2
        have "real (totalCost (selectLoop eff cs (sel @ [c]) (cur + chunkCost c))) \<ge> real eff * 0.98"
          by (simp add: selectLoop_Cons_accept del: selectLoop.simps(2))
        from Cons.IH[OF eq F3 this] True F2 show ?thesis
          by (simp add: selectLoop_Cons_accept del: selectLoop.simps(2))
      qed
    qed
  next
    case False
    show ?thesis
    proof (cases "real cur \<ge> real eff * 0.98")
      case T2: True
      with False show ?thesis by (simp add: selectLoop_Cons_reject del: selectLoop.simps(2))
    next
      case F2: False
      show ?thesis
      proof (cases "cs = []")
        case T3: True
        with False F2 Cons.prems(3) Cons.prems(1) show ?thesis
          by (simp add: selectLoop_Cons_reject del: selectLoop.simps(2))
      next
        case F3: False
        from Cons.prems(3) False F2
        have "real (totalCost (selectLoop eff cs sel cur)) \<ge> real eff * 0.98"
          by (simp add: selectLoop_Cons_reject del: selectLoop.simps(2))
        from Cons.IH[OF Cons.prems(1) F3 this] False F2 show ?thesis
          by (simp add: selectLoop_Cons_reject del: selectLoop.simps(2))
      qed
    qed
  qed
qed



lemma clamp_chunkCost: "chunkCost clamp_chunk = 10050"
  by (simp add: chunkCost_def clamp_chunk_def)

lemma clamp_tokens: "tokens clamp_chunk = 10000"
  by (simp add: clamp_chunk_def)

lemma tiny_chunkCost: "chunkCost tiny_chunk = 150"
  by (simp add: chunkCost_def tiny_chunk_def)

lemma clamp_replicate:
  "replicate 10 clamp_chunk = [clamp_chunk, clamp_chunk, clamp_chunk, clamp_chunk, clamp_chunk,
     clamp_chunk, clamp_chunk, clamp_chunk, clamp_chunk, clamp_chunk]"
  by (simp add: numeral_eq_Suc)

lemma budget_clamp_scenario:
  "selectWithinBudget 25000 (replicate 10 clamp_chunk) = [clamp_chunk, clamp_chunk]"
  unfolding selectWithinBudget_def effectiveBudget_def clamp_replicate
  by (simp add: clamp_chunkCost Let_def)

lemma stop_scenario:
  "selectWithinBudget 21500 [clamp_chunk, clamp_chunk, tiny_chunk] = [clamp_chunk, clamp_chunk]"
  "selectWithinBudget 21500 [clamp_chunk, clamp_chunk] = [clamp_chunk, clamp_chunk]"
  unfolding selectWithinBudget_def effectiveBudget_def
  by (simp_all add: clamp_chunkCost tiny_chunkCost Let_def)

text \<open>
  C1.  For every budget and every ranked list, the selector returns a subsequence of the
  ranked chunks whose cost, the sum of \<open>tokens + 50\<close>, is at most the effective budget
  \<open>\<lfloor>0.95 \<sdot> budget\<rfloor>\<close>.  Every selected chunk was accepted with the running total (the
  cost of the chunks selected before it) plus its own cost within the effective budget,
  and at a moment when the running total was still below 0.98 of the effective budget.
  Once the running total after a processed non-empty prefix has reached 0.98 of the
  effective budget, the remaining chunks are not considered.
\<close>

theorem select_within_budget:
  "(\<Sum>c\<leftarrow>selectWithinBudget budget chunks. tokens c + 50) \<le> nat \<lfloor>real budget * 0.95\<rfloor>
   \<and> subseq (selectWithinBudget budget chunks) chunks
   \<and> (\<forall>pre c post. selectWithinBudget budget chunks = pre @ c # post \<longrightarrow>
          (\<Sum>d\<leftarrow>pre. tokens d + 50) + (tokens c + 50) \<le> nat \<lfloor>real budget * 0.95\<rfloor>
          \<and> real (\<Sum>d\<leftarrow>pre. tokens d + 50) < real (nat \<lfloor>real budget * 0.95\<rfloor>) * 0.98)
   \<and> (\<forall>xs ys. chunks = xs @ ys \<and> xs \<noteq> []
          \<and> real (\<Sum>d\<leftarrow>selectWithinBudget budget xs. tokens d + 50)
               \<ge> real (nat \<lfloor>real budget * 0.95\<rfloor>) * 0.98 \<longrightarrow>
          selectWithinBudget budget chunks = selectWithinBudget budget xs)"
proof -
  let ?eff = "effectiveBudget budget"
  have tc: "\<And>cs. (\<Sum>c\<leftarrow>cs. tokens c + 50) = totalCost cs"
    by (simp add: totalCost_def chunkCost_def[abs_def])
  have eff: "nat \<lfloor>real budget * 0.95\<rfloor> = ?eff" by (simp add: effectiveBudget_def)
  have z: "0 = totalCost []" by (simp add: totalCost_def)
  have 1: "totalCost (selectWithinBudget budget chunks) \<le> ?eff"
    unfolding selectWithinBudget_def by (rule selectLoop_bound[OF z]) simp
  have 2: "subseq (selectWithinBudget budget chunks) chunks"
    using selectLoop_subseq[of ?eff chunks "[]" 0] unfolding selectWithinBudget_def by auto
  have "accepted_ok ?eff (selectWithinBudget budget chunks)"
    unfolding selectWithinBudget_def
    by (rule selectLoop_accepted[OF z accepted_ok_Nil]) simp
  then have 3: "\<forall>pre c post. selectWithinBudget budget chunks = pre @ c # post \<longrightarrow>
          totalCost pre + (tokens c + 50) \<le> ?eff \<and> real (totalCost pre) < real ?eff * 0.98"
    unfolding accepted_ok_def chunkCost_def by blast
  have 4: "\<forall>xs ys. chunks = xs @ ys \<and> xs \<noteq> []
          \<and> real (totalCost (selectWithinBudget budget xs)) \<ge> real ?eff * 0.98 \<longrightarrow>
          selectWithinBudget budget chunks = selectWithinBudget budget xs"
    unfolding selectWithinBudget_def using selectLoop_stop[OF z] by blast
  from 1 2 3 4 show ?thesis unfolding tc eff by blast
qed


theorem select_within_budget_witness:
  "selectWithinBudget 21500 [clamp_chunk, clamp_chunk, tiny_chunk] = [clamp_chunk] @ clamp_chunk # []
   \<and> (\<Sum>d\<leftarrow>[clamp_chunk]. tokens d + 50) + (tokens clamp_chunk + 50) \<le> nat \<lfloor>real 21500 * 0.95\<rfloor>
   \<and> real (\<Sum>d\<leftarrow>[clamp_chunk]. tokens d + 50) < real (nat \<lfloor>real 21500 * 0.95\<rfloor>) * 0.98
   \<and> [clamp_chunk, clamp_chunk, tiny_chunk] = [clamp_chunk, clamp_chunk] @ [tiny_chunk]
   \<and> [clamp_chunk, clamp_chunk] \<noteq> []
   \<and> real (\<Sum>d\<leftarrow>selectWithinBudget 21500 [clamp_chunk, clamp_chunk]. tokens d + 50)
        \<ge> real (nat \<lfloor>real 21500 * 0.95\<rfloor>) * 0.98
   \<and> selectWithinBudget 21500 [clamp_chunk, clamp_chunk, tiny_chunk]
        = selectWithinBudget 21500 [clamp_chunk, clamp_chunk]"
proof -
  have sel: "selectWithinBudget 21500 [clamp_chunk, clamp_chunk, tiny_chunk] = [clamp_chunk] @ clamp_chunk # []"
    by (simp add: stop_scenario)
  have reach: "real (\<Sum>d\<leftarrow>selectWithinBudget 21500 [clamp_chunk, clamp_chunk]. tokens d + 50)
        \<ge> real (nat \<lfloor>real 21500 * 0.95\<rfloor>) * 0.98"
    unfolding stop_scenario by (simp add: clamp_tokens)
  from select_within_budget[of 21500 "[clamp_chunk, clamp_chunk, tiny_chunk]"] sel reach
  show ?thesis by (simp add: stop_scenario)
qed


end
